theory Spec2Isabelle
  imports Complex_Main
begin

section \<open>Data model\<close>

text \<open>
  The model follows \<^verbatim>\<open>lichess_game.py\<close>. A move is its UCI string. The board of the
  chess library is seen through its move stack: \<^verbatim>\<open>board.push(move)\<close> appends to it and
  \<^verbatim>\<open>board.copy()\<close> is the identity on values. Everything else the code reads from a
  board (legal moves, clocks of the rules, piece count) comes from the chess library and
  is a parameter of the model, the record \<open>chess\<close> below.
\<close>

type_synonym uci_move = string
type_synonym board = "uci_move list"

datatype error =
  IndexError | ValueError | KeyError | ZeroDivisionError | RuntimeError

datatype source =
  Book | Explore | Cloud | ChessDB | Gaviota | Syzygy | EGTB | Engine

text \<open>Scores of the engine, relative to the side to move (\<^verbatim>\<open>score.relative\<close>).\<close>

datatype score = Cp int | Mate int | MateGiven

datatype limit =
  Time_Limit rat
| Clock_Limit rat rat rat rat

text \<open>What the game asks of its collaborators, in the order it asks.\<close>

datatype call =
  Book_Lookup nat board
| Explorer_Query string board string int
| Cloud_Query board int
| ChessDB_Query board string int
| EGTB_Query board string int
| Analysis board "rat option"
| Play board limit bool

record chess =
  legal_moves :: "board \<Rightarrow> uci_move list"
  is_checkmate :: "board \<Rightarrow> bool"
  is_repetition :: "board \<Rightarrow> nat \<Rightarrow> bool"
  halfmove_clock :: "board \<Rightarrow> int"
  fullmove_number :: "board \<Rightarrow> int"
  ply :: "board \<Rightarrow> int"
  turn :: "board \<Rightarrow> bool"
  occupied_count :: "board \<Rightarrow> int"
  uci_variant :: string

record entry =
  entry_move :: uci_move
  entry_weight :: int
  entry_learn :: int

record explorer_move =
  em_uci :: uci_move
  em_white :: int
  em_draws :: int
  em_black :: int
  em_performance :: int
  em_wins :: int
  em_losses :: int

record explorer_response =
  er_white :: int
  er_draws :: int
  er_black :: int
  er_moves :: "explorer_move list"

record pv =
  pv_moves :: "uci_move list"
  pv_cp :: "int option"

record cloud_response =
  cr_error :: bool
  cr_depth :: int
  cr_pvs :: "pv list"

record chessdb_response =
  cd_status :: string
  cd_depth :: "int option"
  cd_move :: "uci_move option"
  cd_pv :: "uci_move list"

record egtb_move =
  egm_uci :: uci_move
  egm_dtz :: int

record game_state_event =
  ev_status :: string
  ev_moves :: "uci_move list"
  ev_wtime :: int
  ev_btime :: int

record egtb_response =
  eg_moves :: "egtb_move list"
  eg_category :: string
  eg_dtm :: "int option"

text \<open>
  The collaborators: tablebase probes (\<open>None\<close> is \<^verbatim>\<open>MissingTableError\<close>), the opened
  book readers, the remote queries (\<open>None\<close> is the falsy answer of a failed query), the
  engine, and the stream the random module draws from.
\<close>

record world =
  probe_dtm :: "board \<Rightarrow> int option"
  probe_dtz :: "board \<Rightarrow> int option"
  book_readers :: "(board \<Rightarrow> entry list) list"
  get_opening_explorer :: "string \<Rightarrow> board \<Rightarrow> string \<Rightarrow> int \<Rightarrow> explorer_response option"
  get_cloud_eval :: "board \<Rightarrow> int \<Rightarrow> cloud_response option"
  get_chessdb_eval :: "board \<Rightarrow> string \<Rightarrow> int \<Rightarrow> chessdb_response option"
  get_egtb :: "board \<Rightarrow> string \<Rightarrow> int \<Rightarrow> egtb_response option"
  engine_play :: "board \<Rightarrow> limit \<Rightarrow> bool \<Rightarrow> uci_move option \<times> score option"
  random_draw :: "nat \<Rightarrow> nat"

record opening_books_cfg =
  ob_enabled :: bool
  ob_max_depth :: "int option"
  ob_read_learn :: bool
  ob_selection :: string

record opening_explorer_cfg =
  oe_enabled :: bool
  oe_max_depth :: "int option"
  oe_min_time :: int
  oe_use_for_variants :: bool
  oe_timeout :: int
  oe_min_games :: int
  oe_only_with_wins :: bool
  oe_anti :: bool
  oe_selection :: string

record lichess_cloud_cfg =
  lc_enabled :: bool
  lc_max_depth :: "int option"
  lc_min_time :: int
  lc_only_without_book :: bool
  lc_timeout :: int
  lc_min_eval_depth :: int

record chessdb_cfg =
  cdb_enabled :: bool
  cdb_max_depth :: "int option"
  cdb_min_time :: int
  cdb_timeout :: int
  cdb_min_eval_depth :: int
  cdb_selection :: string

record tablebase_cfg =
  gaviota_enabled :: bool
  gaviota_max_pieces :: int
  syzygy_enabled :: bool
  syzygy_instant_play :: bool
  syzygy_max_pieces :: int
  egtb_enabled :: bool
  egtb_min_time :: int
  egtb_timeout :: int

record offer_cfg =
  draw_min_game_length :: int
  draw_consecutive_moves :: nat
  draw_score :: int
  resign_consecutive_moves :: nat
  resign_score :: int

record config =
  opening_books :: opening_books_cfg
  opening_explorer :: opening_explorer_cfg
  lichess_cloud :: lichess_cloud_cfg
  chessdb :: chessdb_cfg
  tablebases :: tablebase_cfg
  offers :: offer_cfg
  move_overhead_multiplier :: rat

text \<open>
  The attributes of \<^verbatim>\<open>Lichess_Game\<close> that the decision cycle reads or writes, with
  two fields that record its effects on the outside: \<open>calls\<close>, the requests made so far,
  and \<open>draws\<close>, how many random numbers were consumed.
\<close>

record game =
  board :: board
  white_name :: string
  black_name :: string
  is_white :: bool
  initial_time :: int
  increment :: int
  white_time :: int
  black_time :: int
  draw_enabled :: bool
  resign_enabled :: bool
  ponder_enabled :: bool
  move_overhead :: int
  out_of_book_counter :: int
  out_of_opening_explorer_counter :: int
  out_of_cloud_counter :: int
  out_of_chessdb_counter :: int
  draw_scores :: "score list"
  resign_scores :: "score list"
  last_message :: "source option"
  status :: string
  calls :: "call list"
  draws :: nat

type_synonym 'a result = "error + 'a \<times> game"

section \<open>Outcome classifier\<close>

text \<open>
  \<^verbatim>\<open>_value_to_wdl\<close>: a signed distance (to mate or to zeroing) and the halfmove clock of
  the position give one of the five classes 2, 1, 0, -1, -2. Python integers are
  unbounded, hence \<^typ>\<open>int\<close>.
\<close>

definition value_to_wdl :: "int \<Rightarrow> int \<Rightarrow> int" where
  "value_to_wdl v hmc =
     (if v > 0 then
        (if v + hmc \<le> 100 then 2 else 1)
      else if v < 0 then
        (if v - hmc \<ge> - 100 then - 2 else - 1)
      else 0)"

section \<open>Clock, repetition and randomness\<close>



definition has_time :: "game \<Rightarrow> int \<Rightarrow> bool" where
  "has_time s min_time =
     (if length (board s) < 2 then True
      else if is_white s then white_time s \<ge> min_time * 1000
      else black_time s \<ge> min_time * 1000)"

definition reduce_own_time :: "game \<Rightarrow> int \<Rightarrow> game" where
  "reduce_own_time s milliseconds =
     (if is_white s then s\<lparr>white_time := white_time s - milliseconds\<rparr>
      else s\<lparr>black_time := black_time s - milliseconds\<rparr>)"

text \<open>\<^verbatim>\<open>_is_repetition\<close>: push the move on a copy and ask for a two-fold repetition.\<close>

definition is_repetition_after :: "chess \<Rightarrow> game \<Rightarrow> uci_move \<Rightarrow> bool" where
  "is_repetition_after ch s m = is_repetition ch (board s @ [m]) 2"

definition too_deep :: "chess \<Rightarrow> game \<Rightarrow> int option \<Rightarrow> bool" where
  "too_deep ch s max_depth =
     (case max_depth of None \<Rightarrow> False | Some d \<Rightarrow> ply ch (board s) \<ge> d)"

definition log_call :: "call \<Rightarrow> game \<Rightarrow> game" where
  "log_call c s = s\<lparr>calls := calls s @ [c]\<rparr>"

text \<open>
  \<^verbatim>\<open>random.choice\<close>: one draw from the stream selects an index; an empty population
  raises IndexError.
\<close>

definition random_choice :: "world \<Rightarrow> 'a list \<Rightarrow> game \<Rightarrow> 'a result" where
  "random_choice env xs s =
     (if xs = [] then Inl IndexError
      else Inr (xs ! (random_draw env (draws s) mod length xs), s\<lparr>draws := Suc (draws s)\<rparr>))"

fun cumulative :: "int \<Rightarrow> int list \<Rightarrow> int list" where
  "cumulative acc [] = []"
| "cumulative acc (w # ws) = (acc + w) # cumulative (acc + w) ws"

text \<open>
  \<^verbatim>\<open>random.choices(population, weights, k=1)\<close>: the total weight must be positive
  (ValueError otherwise); a point below the total is drawn and located by bisection in
  the cumulative weights, the last index closing the search.
\<close>

definition weighted_choice :: "world \<Rightarrow> 'a list \<Rightarrow> int list \<Rightarrow> game \<Rightarrow> 'a result" where
  "weighted_choice env xs ws s =
     (let cum = cumulative 0 ws; total = sum_list ws in
      if xs = [] then Inl IndexError
      else if total \<le> 0 then Inl ValueError
      else
        (let x = int (random_draw env (draws s)) mod total;
             i = length (filter (\<lambda>c. c \<le> x) (take (length xs - 1) cum))
         in Inr (xs ! i, s\<lparr>draws := Suc (draws s)\<rparr>)))"

text \<open>Python's \<^verbatim>\<open>max(xs, key=f)\<close> keeps the first element with the greatest key.\<close>

fun max_from :: "('a \<Rightarrow> 'k::linorder) \<Rightarrow> 'a \<Rightarrow> 'a list \<Rightarrow> 'a" where
  "max_from f best [] = best"
| "max_from f best (x # xs) = max_from f (if f x > f best then x else best) xs"

definition max_by :: "('a \<Rightarrow> 'k::linorder) \<Rightarrow> 'a list \<Rightarrow> error + 'a" where
  "max_by f xs = (case xs of [] \<Rightarrow> Inl ValueError | x # rest \<Rightarrow> Inr (max_from f x rest))"

section \<open>Opening book\<close>

definition select_entry :: "config \<Rightarrow> world \<Rightarrow> entry list \<Rightarrow> game \<Rightarrow> entry result" where
  "select_entry cfg env entries s =
     (if ob_selection (opening_books cfg) = ''weighted_random'' then
        weighted_choice env entries (map entry_weight entries) s
      else if ob_selection (opening_books cfg) = ''uniform_random'' then
        random_choice env entries s
      else
        (case max_by entry_weight entries of
           Inl e \<Rightarrow> Inl e
         | Inr en \<Rightarrow> Inr (en, s)))"

text \<open>
  The loop of \<^verbatim>\<open>_make_book_move\<close> over the book readers; the statement after the loop
  (one more miss) is the empty case.
\<close>

fun book_loop ::
  "config \<Rightarrow> chess \<Rightarrow> world \<Rightarrow> nat \<Rightarrow> (board \<Rightarrow> entry list) list \<Rightarrow> game
    \<Rightarrow> (uci_move \<times> rat \<times> int) option result" where
  "book_loop cfg ch env i [] s =
     Inr (None, s\<lparr>out_of_book_counter := out_of_book_counter s + 1\<rparr>)"
| "book_loop cfg ch env i (reader # rest) s =
     (let s1 = log_call (Book_Lookup i (board s)) s;
          entries = reader (board s)
      in if entries = [] then book_loop cfg ch env (Suc i) rest s1
         else
           (case select_entry cfg env entries s1 of
              Inl e \<Rightarrow> Inl e
            | Inr (en, s2) \<Rightarrow>
                if \<not> is_repetition_after ch s2 (entry_move en) then
                  (let s3 = s2\<lparr>out_of_book_counter := 0\<rparr>;
                       total = sum_list (map entry_weight entries)
                   in if total = 0 then Inl ZeroDivisionError
                      else Inr (Some (entry_move en,
                                  rat_of_int (entry_weight en) / rat_of_int total * 100,
                                  (if ob_read_learn (opening_books cfg) then entry_learn en else 0)),
                                s3))
                else book_loop cfg ch env (Suc i) rest s2))"

definition make_book_move ::
  "config \<Rightarrow> chess \<Rightarrow> world \<Rightarrow> game \<Rightarrow> (uci_move \<times> rat \<times> int) option result" where
  "make_book_move cfg ch env s =
     (if \<not> ob_enabled (opening_books cfg) then Inr (None, s)
      else
        (let out_of_book = out_of_book_counter s \<ge> 10;
             deep = too_deep ch s (ob_max_depth (opening_books cfg))
         in if out_of_book \<or> deep then Inr (None, s)
            else book_loop cfg ch env 0 (book_readers env) s))"

section \<open>Opening explorer\<close>

definition with_wins :: "bool \<Rightarrow> explorer_move \<Rightarrow> explorer_move" where
  "with_wins t m =
     m\<lparr>em_wins := (if t then em_white m else em_black m),
       em_losses := (if t then em_black m else em_white m)\<rparr>"

definition games_of :: "explorer_move \<Rightarrow> int" where
  "games_of m = em_white m + em_draws m + em_black m"

definition get_opening_explorer_top_move ::
  "config \<Rightarrow> chess \<Rightarrow> game \<Rightarrow> explorer_move list \<Rightarrow> error + explorer_move" where
  "get_opening_explorer_top_move cfg ch s moves =
     (if oe_selection (opening_explorer cfg) = ''win_rate'' then
        (let ms = map (with_wins (turn ch (board s))) moves
         in if ms = [] then Inl ValueError
            else if list_ex (\<lambda>m. games_of m = 0) ms then Inl ZeroDivisionError
            else max_by (\<lambda>m. rat_of_int (em_wins m) / rat_of_int (games_of m)) ms)
      else
        (case max_by em_performance moves of
           Inl e \<Rightarrow> Inl e
         | Inr top_move \<Rightarrow> Inr (with_wins (turn ch (board s)) top_move)))"

definition explorer_miss :: "game \<Rightarrow> game" where
  "explorer_miss s =
     s\<lparr>out_of_opening_explorer_counter := out_of_opening_explorer_counter s + 1\<rparr>"

definition make_opening_explorer_move ::
  "config \<Rightarrow> chess \<Rightarrow> world \<Rightarrow> game \<Rightarrow> (uci_move \<times> int \<times> int \<times> int \<times> int) option result" where
  "make_opening_explorer_move cfg ch env s =
     (let c = opening_explorer cfg in
      if \<not> oe_enabled c then Inr (None, s)
      else
        (let out_of_book = out_of_opening_explorer_counter s \<ge> 10;
             deep = too_deep ch s (oe_max_depth c);
             time = has_time s (oe_min_time c);
             is_variant = uci_variant ch \<noteq> ''chess'';
             forbidden_variant = is_variant \<and> \<not> oe_use_for_variants c
         in if out_of_book \<or> deep \<or> \<not> time \<or> forbidden_variant then Inr (None, s)
            else
              (let timeout = oe_timeout c;
                   min_games = max (oe_min_games c) 1;
                   t = turn ch (board s);
                   color = (if oe_anti c then (if t then ''black'' else ''white'')
                            else (if t then ''white'' else ''black''));
                   username = (if oe_anti c then (if t then black_name s else white_name s)
                               else (if t then white_name s else black_name s));
                   s1 = log_call (Explorer_Query username (board s) color timeout) s
               in case get_opening_explorer env username (board s) color timeout of
                    None \<Rightarrow> Inr (None, reduce_own_time s1 (timeout * 1000))
                  | Some response \<Rightarrow>
                      (let game_count = er_white response + er_draws response + er_black response
                       in if game_count \<ge> min_games then
                            (case get_opening_explorer_top_move cfg ch s1 (er_moves response) of
                               Inl e \<Rightarrow> Inl e
                             | Inr top_move \<Rightarrow>
                                 (let missing_win = oe_only_with_wins c \<and> em_wins top_move = 0
                                  in if \<not> missing_win then
                                       (let s2 = s1\<lparr>out_of_opening_explorer_counter := 0\<rparr>
                                        in if \<not> is_repetition_after ch s2 (em_uci top_move) then
                                             Inr (Some (em_uci top_move, em_performance top_move,
                                                    em_wins top_move, em_draws top_move,
                                                    em_losses top_move), s2)
                                           else Inr (None, explorer_miss s2))
                                     else Inr (None, explorer_miss s1)))
                          else Inr (None, explorer_miss s1)))))"

section \<open>Cloud evaluation and community database\<close>

definition first_of :: "'a list \<Rightarrow> error + 'a" where
  "first_of xs = (case xs of [] \<Rightarrow> Inl IndexError | x # _ \<Rightarrow> Inr x)"

definition cloud_miss :: "game \<Rightarrow> game" where
  "cloud_miss s = s\<lparr>out_of_cloud_counter := out_of_cloud_counter s + 1\<rparr>"

definition make_cloud_move ::
  "config \<Rightarrow> chess \<Rightarrow> world \<Rightarrow> game \<Rightarrow> (uci_move \<times> int \<times> int) option result" where
  "make_cloud_move cfg ch env s =
     (let c = lichess_cloud cfg in
      if \<not> lc_enabled c then Inr (None, s)
      else
        (let out_of_book = out_of_cloud_counter s \<ge> 10;
             deep = too_deep ch s (lc_max_depth c);
             time = has_time s (lc_min_time c);
             blocking_book = lc_only_without_book c \<and> book_readers env \<noteq> []
         in if out_of_book \<or> deep \<or> \<not> time \<or> blocking_book then Inr (None, s)
            else
              (let timeout = lc_timeout c;
                   min_eval_depth = lc_min_eval_depth c;
                   s1 = log_call (Cloud_Query (board s) timeout) s
               in case get_cloud_eval env (board s) timeout of
                    None \<Rightarrow> Inr (None, reduce_own_time s1 (timeout * 1000))
                  | Some response \<Rightarrow>
                      if \<not> cr_error response \<and> cr_depth response \<ge> min_eval_depth then
                        (let s2 = s1\<lparr>out_of_cloud_counter := 0\<rparr>
                         in case first_of (cr_pvs response) of
                              Inl e \<Rightarrow> Inl e
                            | Inr line \<Rightarrow>
                                (case first_of (pv_moves line) of
                                   Inl e \<Rightarrow> Inl e
                                 | Inr move \<Rightarrow>
                                     if \<not> is_repetition_after ch s2 move then
                                       (case pv_cp line of
                                          None \<Rightarrow> Inl KeyError
                                        | Some cp \<Rightarrow> Inr (Some (move, cp, cr_depth response), s2))
                                     else Inr (None, cloud_miss s2)))
                      else Inr (None, cloud_miss s1))))"

definition chessdb_miss :: "game \<Rightarrow> game" where
  "chessdb_miss s = s\<lparr>out_of_chessdb_counter := out_of_chessdb_counter s + 1\<rparr>"

definition make_chessdb_move ::
  "config \<Rightarrow> chess \<Rightarrow> world \<Rightarrow> game \<Rightarrow> uci_move option result" where
  "make_chessdb_move cfg ch env s =
     (let c = chessdb cfg in
      if \<not> cdb_enabled c then Inr (None, s)
      else
        (let out_of_book = out_of_chessdb_counter s \<ge> 10;
             deep = too_deep ch s (cdb_max_depth c);
             time = has_time s (cdb_min_time c);
             incompatible_variant = uci_variant ch \<noteq> ''chess'';
             is_endgame = occupied_count ch (board s) \<le> 7
         in if out_of_book \<or> deep \<or> \<not> time \<or> incompatible_variant \<or> is_endgame
            then Inr (None, s)
            else
              (let timeout = cdb_timeout c;
                   min_eval_depth = cdb_min_eval_depth c;
                   action = (if cdb_selection c = ''good'' then ''querybest''
                             else if cdb_selection c = ''all'' then ''query''
                             else ''querypv'');
                   s1 = log_call (ChessDB_Query (board s) action timeout) s
               in case get_chessdb_eval env (board s) action timeout of
                    None \<Rightarrow> Inr (None, reduce_own_time s1 (timeout * 1000))
                  | Some response \<Rightarrow>
                      if cd_status response = ''ok'' \<and>
                         (case cd_depth response of None \<Rightarrow> 50 | Some d \<Rightarrow> d) \<ge> min_eval_depth
                      then
                        (let s2 = s1\<lparr>out_of_chessdb_counter := 0\<rparr>
                         in case (case cd_move response of
                                    Some m \<Rightarrow> Inr m
                                  | None \<Rightarrow> first_of (cd_pv response)) of
                              Inl e \<Rightarrow> Inl e
                            | Inr move \<Rightarrow>
                                if \<not> is_repetition_after ch s2 move then Inr (Some move, s2)
                                else Inr (None, chessdb_miss s2))
                      else Inr (None, chessdb_miss s1))))"

section \<open>Tablebase move selectors\<close>

text \<open>
  The accumulator of the scan in \<^verbatim>\<open>_make_gaviota_move\<close>: \<^verbatim>\<open>best_moves\<close>,
  \<^verbatim>\<open>best_wdl\<close> and \<^verbatim>\<open>best_dtm\<close>.
\<close>

type_synonym gaviota_best = "uci_move list \<times> int \<times> int"

text \<open>Class and distance of the position after a move; \<open>None\<close> is a missing table.\<close>

definition gaviota_probe :: "chess \<Rightarrow> world \<Rightarrow> board \<Rightarrow> (int \<times> int) option" where
  "gaviota_probe ch env board_copy =
     (if is_checkmate ch board_copy then Some (2, 0)
      else
        (case probe_dtm env board_copy of
           None \<Rightarrow> None
         | Some v \<Rightarrow>
             (let dtm = - v in Some (value_to_wdl dtm (halfmove_clock ch board_copy), dtm))))"

definition gaviota_step :: "uci_move \<Rightarrow> int \<Rightarrow> int \<Rightarrow> gaviota_best \<Rightarrow> gaviota_best" where
  "gaviota_step move wdl dtm best =
     (case best of (best_moves, best_wdl, best_dtm) \<Rightarrow>
        if best_moves \<noteq> [] then
          (if wdl > best_wdl then ([move], wdl, dtm)
           else if wdl = best_wdl then
             (if dtm < best_dtm then ([move], best_wdl, dtm)
              else if dtm = best_dtm then (best_moves @ [move], best_wdl, best_dtm)
              else (best_moves, best_wdl, best_dtm))
           else (best_moves, best_wdl, best_dtm))
        else ([move], wdl, dtm))"

fun gaviota_scan ::
  "chess \<Rightarrow> world \<Rightarrow> board \<Rightarrow> uci_move list \<Rightarrow> gaviota_best \<Rightarrow> gaviota_best option" where
  "gaviota_scan ch env b [] best = Some best"
| "gaviota_scan ch env b (move # rest) best =
     (case gaviota_probe ch env (b @ [move]) of
        None \<Rightarrow> None
      | Some (wdl, dtm) \<Rightarrow> gaviota_scan ch env b rest (gaviota_step move wdl dtm best))"

text \<open>A \<^verbatim>\<open>return random.choice(best_moves), outcome, distance, offer_draw, resign\<close>.\<close>

definition return_choice ::
  "world \<Rightarrow> uci_move list \<Rightarrow> string \<Rightarrow> int \<Rightarrow> bool \<Rightarrow> bool \<Rightarrow> game
    \<Rightarrow> (uci_move \<times> string \<times> int \<times> bool \<times> bool) option result" where
  "return_choice env best_moves outcome distance offer res s =
     (case random_choice env best_moves s of
        Inl e \<Rightarrow> Inl e
      | Inr (move, s1) \<Rightarrow> Inr (Some (move, outcome, distance, offer, res), s1))"

definition make_gaviota_move ::
  "config \<Rightarrow> chess \<Rightarrow> world \<Rightarrow> game
    \<Rightarrow> (uci_move \<times> string \<times> int \<times> bool \<times> bool) option result" where
  "make_gaviota_move cfg ch env s =
     (if \<not> gaviota_enabled (tablebases cfg) then Inr (None, s)
      else
        (let is_endgame = occupied_count ch (board s) \<le> gaviota_max_pieces (tablebases cfg);
             incompatible_variant = uci_variant ch \<noteq> ''chess''
         in if \<not> is_endgame \<or> incompatible_variant then Inr (None, s)
            else
              (case gaviota_scan ch env (board s) (legal_moves ch (board s)) ([], - 2, 1000000) of
                 None \<Rightarrow> Inr (None, s)
               | Some (best_moves, best_wdl, best_dtm) \<Rightarrow>
                   if best_wdl = 2 then return_choice env best_moves ''win'' best_dtm False False s
                   else if best_wdl = 0 then
                     return_choice env best_moves ''draw'' best_dtm True False s
                   else if best_wdl = - 2 then
                     return_choice env best_moves ''loss'' best_dtm False True s
                   else Inr (None, s))))"

text \<open>
  The accumulator of the scan in \<^verbatim>\<open>_make_syzygy_move\<close>: \<^verbatim>\<open>best_moves\<close>,
  \<^verbatim>\<open>best_wdl\<close>, \<^verbatim>\<open>best_dtz\<close> and \<^verbatim>\<open>best_real_dtz\<close>.
\<close>

type_synonym syzygy_best = "uci_move list \<times> int \<times> int \<times> int"

text \<open>Class, comparison distance and real distance of the position after a move.\<close>

definition syzygy_probe :: "chess \<Rightarrow> world \<Rightarrow> board \<Rightarrow> (int \<times> int \<times> int) option" where
  "syzygy_probe ch env board_copy =
     (case probe_dtz env board_copy of
        None \<Rightarrow> None
      | Some v \<Rightarrow>
          (let dtz = - v;
               wdl = value_to_wdl dtz (halfmove_clock ch board_copy);
               real_dtz = dtz;
               dtz = (if halfmove_clock ch board_copy = 0 then
                        (if wdl < 0 then dtz + 10000
                         else if wdl > 0 then dtz - 10000
                         else dtz)
                      else dtz)
           in Some (wdl, dtz, real_dtz)))"

definition syzygy_step ::
  "uci_move \<Rightarrow> int \<Rightarrow> int \<Rightarrow> int \<Rightarrow> syzygy_best \<Rightarrow> syzygy_best" where
  "syzygy_step move wdl dtz real_dtz best =
     (case best of (best_moves, best_wdl, best_dtz, best_real_dtz) \<Rightarrow>
        if best_moves \<noteq> [] then
          (if wdl > best_wdl then ([move], wdl, dtz, real_dtz)
           else if wdl = best_wdl then
             (if dtz < best_dtz then ([move], best_wdl, dtz, real_dtz)
              else if dtz = best_dtz then
                (best_moves @ [move], best_wdl, best_dtz, best_real_dtz)
              else (best_moves, best_wdl, best_dtz, best_real_dtz))
           else (best_moves, best_wdl, best_dtz, best_real_dtz))
        else ([move], wdl, dtz, real_dtz))"

fun syzygy_scan ::
  "chess \<Rightarrow> world \<Rightarrow> board \<Rightarrow> uci_move list \<Rightarrow> syzygy_best \<Rightarrow> syzygy_best option" where
  "syzygy_scan ch env b [] best = Some best"
| "syzygy_scan ch env b (move # rest) best =
     (case syzygy_probe ch env (b @ [move]) of
        None \<Rightarrow> None
      | Some (wdl, dtz, real_dtz) \<Rightarrow>
          syzygy_scan ch env b rest (syzygy_step move wdl dtz real_dtz best))"

definition make_syzygy_move ::
  "config \<Rightarrow> chess \<Rightarrow> world \<Rightarrow> game
    \<Rightarrow> (uci_move \<times> string \<times> int \<times> bool \<times> bool) option result" where
  "make_syzygy_move cfg ch env s =
     (let enabled = syzygy_enabled (tablebases cfg) \<and> syzygy_instant_play (tablebases cfg)
      in if \<not> enabled then Inr (None, s)
         else
           (let is_endgame = occupied_count ch (board s) \<le> syzygy_max_pieces (tablebases cfg);
                incompatible_variant =
                  (uci_variant ch \<notin> set [''chess'', ''antichess'', ''atomic''])
            in if \<not> is_endgame \<or> incompatible_variant then Inr (None, s)
               else
                 (case syzygy_scan ch env (board s) (legal_moves ch (board s))
                         ([], - 2, 1000000, 1000000) of
                    None \<Rightarrow> Inr (None, s)
                  | Some (best_moves, best_wdl, best_dtz, best_real_dtz) \<Rightarrow>
                      if best_wdl = 2 then
                        return_choice env best_moves ''win'' best_real_dtz False False s
                      else if best_wdl = 1 then
                        return_choice env best_moves ''cursed win'' best_real_dtz False False s
                      else if best_wdl = 0 then
                        return_choice env best_moves ''draw'' best_real_dtz True False s
                      else if best_wdl = - 1 then
                        return_choice env best_moves ''blessed loss'' best_real_dtz True False s
                      else return_choice env best_moves ''loss'' best_real_dtz False True s)))"

text \<open>\<^verbatim>\<open>_make_egtb_move\<close>: the online tablebase names the move and its category itself.\<close>

definition make_egtb_move ::
  "config \<Rightarrow> chess \<Rightarrow> world \<Rightarrow> game
    \<Rightarrow> (uci_move \<times> string \<times> int \<times> int option \<times> bool \<times> bool) option result" where
  "make_egtb_move cfg ch env s =
     (if \<not> egtb_enabled (tablebases cfg) then Inr (None, s)
      else
        (let max_pieces = (if uci_variant ch = ''chess'' then 7 else 6);
             is_endgame = occupied_count ch (board s) \<le> max_pieces;
             time = has_time s (egtb_min_time (tablebases cfg));
             incompatible_variant =
               (uci_variant ch \<notin> set [''chess'', ''antichess'', ''atomic''])
         in if \<not> is_endgame \<or> \<not> time \<or> incompatible_variant then Inr (None, s)
            else
              (let timeout = egtb_timeout (tablebases cfg);
                   variant = (if uci_variant ch = ''chess'' then ''standard'' else uci_variant ch);
                   s1 = log_call (EGTB_Query (board s) variant timeout) s
               in case get_egtb env (board s) variant timeout of
                    None \<Rightarrow> Inr (None, reduce_own_time s1 (timeout * 1000))
                  | Some response \<Rightarrow>
                      (case first_of (eg_moves response) of
                         Inl e \<Rightarrow> Inl e
                       | Inr first_move \<Rightarrow>
                           (let outcome = eg_category response;
                                dtz = - egm_dtz first_move;
                                dtm = eg_dtm response;
                                offer = (outcome \<in> set [''draw'', ''blessed loss'']);
                                res = (outcome = ''loss'')
                            in Inr (Some (egm_uci first_move, outcome, dtz, dtm, offer, res), s1))))))"

section \<open>Engine, draw and resign\<close>

text \<open>\<^verbatim>\<open>Score.score(mate_score=...)\<close> of the chess library.\<close>

fun score_value :: "int \<Rightarrow> score \<Rightarrow> int" where
  "score_value mate_score (Cp x) = x"
| "score_value mate_score (Mate n) = (if n > 0 then mate_score - n else - mate_score - n)"
| "score_value mate_score MateGiven = mate_score"

text \<open>\<^verbatim>\<open>deque(maxlen=n).append(x)\<close>: the oldest entries leave when the window is full.\<close>

definition deque_append :: "nat \<Rightarrow> 'a list \<Rightarrow> 'a \<Rightarrow> 'a list" where
  "deque_append maxlen xs x = (let ys = xs @ [x] in drop (length ys - maxlen) ys)"

definition is_drawish :: "config \<Rightarrow> chess \<Rightarrow> game \<Rightarrow> bool" where
  "is_drawish cfg ch s =
     (if \<not> draw_enabled s then False
      else
        (let too_shallow = fullmove_number ch (board s) < draw_min_game_length (offers cfg);
             too_few_scores = length (draw_scores s) < draw_consecutive_moves (offers cfg)
         in if too_shallow \<or> too_few_scores then False
            else
              (let max_score = draw_score (offers cfg)
               in list_all (\<lambda>sc. \<not> \<bar>score_value 40000 sc\<bar> > max_score) (draw_scores s))))"

definition is_resignable :: "config \<Rightarrow> game \<Rightarrow> bool" where
  "is_resignable cfg s =
     (if \<not> resign_enabled s then False
      else if length (resign_scores s) < resign_consecutive_moves (offers cfg) then False
      else
        (let max_score = resign_score (offers cfg)
         in list_all (\<lambda>sc. \<not> score_value 40000 sc > max_score) (resign_scores s)))"

definition make_engine_move :: "config \<Rightarrow> world \<Rightarrow> game \<Rightarrow> (uci_move \<times> score option) result" where
  "make_engine_move cfg env s =
     (let (lim, ponder) =
            (if length (board s) < 2 then (Time_Limit 15, False)
             else
               (let white_clock =
                      (if is_white s then
                         (if white_time s > move_overhead s
                          then rat_of_int (white_time s - move_overhead s)
                          else rat_of_int (white_time s) / 2) / 1000
                       else rat_of_int (white_time s) / 1000);
                    black_clock =
                      (if is_white s then rat_of_int (black_time s) / 1000
                       else
                         (if black_time s > move_overhead s
                          then rat_of_int (black_time s - move_overhead s)
                          else rat_of_int (black_time s) / 2) / 1000);
                    inc = rat_of_int (increment s) / 1000
                in (Clock_Limit white_clock inc black_clock inc, ponder_enabled s)));
          s1 = log_call (Play (board s) lim ponder) s
      in case engine_play env (board s) lim ponder of
           (None, info) \<Rightarrow> Inl RuntimeError
         | (Some move, info) \<Rightarrow>
             (let sc = (case info of None \<Rightarrow> Mate 1 | Some x \<Rightarrow> x)
              in Inr ((move, info),
                   s1\<lparr>draw_scores :=
                        deque_append (draw_consecutive_moves (offers cfg)) (draw_scores s1) sc,
                      resign_scores :=
                        deque_append (resign_consecutive_moves (offers cfg)) (resign_scores s1) sc\<rparr>)))"

definition start_pondering :: "game \<Rightarrow> game" where
  "start_pondering s = (if ponder_enabled s then log_call (Analysis (board s) None) s else s)"

definition stop_pondering :: "game \<Rightarrow> game" where
  "stop_pondering s =
     (if ponder_enabled s
      then log_call (Analysis (board s) (Some (1 / 1000))) (s\<lparr>ponder_enabled := False\<rparr>)
      else s)"

section \<open>The decision cycle\<close>

text \<open>
  What a branch of \<^verbatim>\<open>make_move\<close> leaves for the common tail: the move, the source named
  in the message, \<^verbatim>\<open>offer_draw\<close>, \<^verbatim>\<open>resign\<close> and \<^verbatim>\<open>engine_move\<close>.
\<close>

type_synonym selection = "uci_move \<times> source \<times> bool \<times> bool \<times> bool"

text \<open>The \<^verbatim>\<open>if\<close>/\<^verbatim>\<open>elif\<close> chain of \<^verbatim>\<open>make_move\<close>, one definition per branch, last first.\<close>

definition select_engine :: "config \<Rightarrow> chess \<Rightarrow> world \<Rightarrow> game \<Rightarrow> selection result" where
  "select_engine cfg ch env s =
     (case make_engine_move cfg env s of
        Inl e \<Rightarrow> Inl e
      | Inr ((move, info), s1) \<Rightarrow>
          Inr ((move, Engine, is_drawish cfg ch s1, is_resignable cfg s1,
                length (board s1) > 1), s1))"

definition select_egtb :: "config \<Rightarrow> chess \<Rightarrow> world \<Rightarrow> game \<Rightarrow> selection result" where
  "select_egtb cfg ch env s =
     (case make_egtb_move cfg ch env s of
        Inl e \<Rightarrow> Inl e
      | Inr (Some (uci, outcome, dtz, dtm, offer, res), s1) \<Rightarrow>
          Inr ((uci, EGTB, offer, res, False), s1)
      | Inr (None, s1) \<Rightarrow> select_engine cfg ch env s1)"

definition select_syzygy :: "config \<Rightarrow> chess \<Rightarrow> world \<Rightarrow> game \<Rightarrow> selection result" where
  "select_syzygy cfg ch env s =
     (case make_syzygy_move cfg ch env s of
        Inl e \<Rightarrow> Inl e
      | Inr (Some (move, outcome, dtz, offer, res), s1) \<Rightarrow>
          Inr ((move, Syzygy, offer, res, False), stop_pondering s1)
      | Inr (None, s1) \<Rightarrow> select_egtb cfg ch env s1)"

definition select_gaviota :: "config \<Rightarrow> chess \<Rightarrow> world \<Rightarrow> game \<Rightarrow> selection result" where
  "select_gaviota cfg ch env s =
     (case make_gaviota_move cfg ch env s of
        Inl e \<Rightarrow> Inl e
      | Inr (Some (move, outcome, dtm, offer, res), s1) \<Rightarrow>
          Inr ((move, Gaviota, offer, res, False), stop_pondering s1)
      | Inr (None, s1) \<Rightarrow> select_syzygy cfg ch env s1)"

definition select_chessdb :: "config \<Rightarrow> chess \<Rightarrow> world \<Rightarrow> game \<Rightarrow> selection result" where
  "select_chessdb cfg ch env s =
     (case make_chessdb_move cfg ch env s of
        Inl e \<Rightarrow> Inl e
      | Inr (Some move, s1) \<Rightarrow> Inr ((move, ChessDB, False, False, False), s1)
      | Inr (None, s1) \<Rightarrow> select_gaviota cfg ch env s1)"

definition select_cloud :: "config \<Rightarrow> chess \<Rightarrow> world \<Rightarrow> game \<Rightarrow> selection result" where
  "select_cloud cfg ch env s =
     (case make_cloud_move cfg ch env s of
        Inl e \<Rightarrow> Inl e
      | Inr (Some (move, cp_score, depth), s1) \<Rightarrow> Inr ((move, Cloud, False, False, False), s1)
      | Inr (None, s1) \<Rightarrow> select_chessdb cfg ch env s1)"

definition select_explorer :: "config \<Rightarrow> chess \<Rightarrow> world \<Rightarrow> game \<Rightarrow> selection result" where
  "select_explorer cfg ch env s =
     (case make_opening_explorer_move cfg ch env s of
        Inl e \<Rightarrow> Inl e
      | Inr (Some (move, performance, wdl), s1) \<Rightarrow>
          Inr ((move, Explore, False, False, False), s1)
      | Inr (None, s1) \<Rightarrow> select_cloud cfg ch env s1)"

definition select_book :: "config \<Rightarrow> chess \<Rightarrow> world \<Rightarrow> game \<Rightarrow> selection result" where
  "select_book cfg ch env s =
     (case make_book_move cfg ch env s of
        Inl e \<Rightarrow> Inl e
      | Inr (Some (move, weight, learn), s1) \<Rightarrow> Inr ((move, Book, False, False, False), s1)
      | Inr (None, s1) \<Rightarrow> select_explorer cfg ch env s1)"

text \<open>
  \<^verbatim>\<open>make_move\<close>: the chain, then the message, the push, the pondering and the flags
  masked by the configuration.
\<close>

definition make_move ::
  "config \<Rightarrow> chess \<Rightarrow> world \<Rightarrow> game \<Rightarrow> (uci_move \<times> bool \<times> bool) result" where
  "make_move cfg ch env s =
     (case select_book cfg ch env s of
        Inl e \<Rightarrow> Inl e
      | Inr ((move, src, offer, res, engine_move), s1) \<Rightarrow>
          (let s2 = s1\<lparr>last_message := Some src\<rparr>;
               s3 = s2\<lparr>board := board s2 @ [move]\<rparr>;
               s4 = (if \<not> engine_move then start_pondering s3 else s3)
           in Inr ((move, offer \<and> draw_enabled s4, res \<and> resign_enabled s4), s4)))"

text \<open>\<^verbatim>\<open>update\<close>: a game state event of the server.\<close>

definition update :: "game_state_event \<Rightarrow> game \<Rightarrow> bool \<times> game" where
  "update ev s =
     (let s1 = s\<lparr>status := ev_status ev\<rparr>;
          moves = ev_moves ev
      in if length moves \<le> length (board s1) then (False, s1)
         else (True, s1\<lparr>board := board s1 @ [last moves],
                        white_time := ev_wtime ev,
                        black_time := ev_btime ev\<rparr>))"

section \<open>Concrete positions\<close>

text \<open>A configuration with every source switched off; the examples switch on what they use.\<close>

definition quiet_config :: config where
  "quiet_config =
     \<lparr>opening_books =
        \<lparr>ob_enabled = False, ob_max_depth = None, ob_read_learn = False,
         ob_selection = ''best_move''\<rparr>,
      opening_explorer =
        \<lparr>oe_enabled = False, oe_max_depth = None, oe_min_time = 20,
         oe_use_for_variants = False, oe_timeout = 5, oe_min_games = 5,
         oe_only_with_wins = False, oe_anti = False, oe_selection = ''performance''\<rparr>,
      lichess_cloud =
        \<lparr>lc_enabled = False, lc_max_depth = None, lc_min_time = 20,
         lc_only_without_book = False, lc_timeout = 5, lc_min_eval_depth = 20\<rparr>,
      chessdb =
        \<lparr>cdb_enabled = False, cdb_max_depth = None, cdb_min_time = 20, cdb_timeout = 5,
         cdb_min_eval_depth = 10, cdb_selection = ''good''\<rparr>,
      tablebases =
        \<lparr>gaviota_enabled = False, gaviota_max_pieces = 5, syzygy_enabled = False,
         syzygy_instant_play = False, syzygy_max_pieces = 6, egtb_enabled = False,
         egtb_min_time = 1, egtb_timeout = 3\<rparr>,
      offers =
        \<lparr>draw_min_game_length = 35, draw_consecutive_moves = 3, draw_score = 50,
         resign_consecutive_moves = 3, resign_score = - 1000\<rparr>,
      move_overhead_multiplier = 1\<rparr>"

definition gaviota_config :: config where
  "gaviota_config = quiet_config\<lparr>tablebases := (tablebases quiet_config)\<lparr>gaviota_enabled := True\<rparr>\<rparr>"

definition syzygy_config :: config where
  "syzygy_config =
     quiet_config\<lparr>tablebases :=
       (tablebases quiet_config)\<lparr>syzygy_enabled := True, syzygy_instant_play := True\<rparr>\<rparr>"

definition egtb_config :: config where
  "egtb_config = quiet_config\<lparr>tablebases := (tablebases quiet_config)\<lparr>egtb_enabled := True\<rparr>\<rparr>"

text \<open>
  A five-piece ending with three legal moves: two pawn moves, which reset the halfmove
  clock, and a king move after which the clock stands at 100.
\<close>

definition endgame_chess :: chess where
  "endgame_chess =
     \<lparr>legal_moves = (\<lambda>b. [''g7g8q'', ''h6h7'', ''g1f1'']),
      is_checkmate = (\<lambda>b. False),
      is_repetition = (\<lambda>b n. False),
      halfmove_clock = (\<lambda>b. if b \<noteq> [] \<and> last b = ''g1f1'' then 100 else 0),
      fullmove_number = (\<lambda>b. 60),
      ply = (\<lambda>b. int (length b)),
      turn = (\<lambda>b. even (length b)),
      occupied_count = (\<lambda>b. 5),
      uci_variant = ''chess''\<rparr>"

text \<open>
  The tablebases see a win in 3 after the promotion, a win in 7 after the other pawn move
  and a win in 1 after the king move, which the clock turns into a cursed win.
\<close>

definition endgame_world :: world where
  "endgame_world =
     \<lparr>probe_dtm = (\<lambda>b. if b \<noteq> [] \<and> last b = ''g7g8q'' then Some (- 3)
                        else if b \<noteq> [] \<and> last b = ''h6h7'' then Some (- 7) else Some (- 1)),
      probe_dtz = (\<lambda>b. if b \<noteq> [] \<and> last b = ''g7g8q'' then Some (- 3)
                        else if b \<noteq> [] \<and> last b = ''h6h7'' then Some (- 7) else Some (- 1)),
      book_readers = [],
      get_opening_explorer = (\<lambda>u b c t. None),
      get_cloud_eval = (\<lambda>b t. None),
      get_chessdb_eval = (\<lambda>b a t. None),
      get_egtb = (\<lambda>b v t. None),
      engine_play = (\<lambda>b l p. (Some ''g1f1'', Some (Cp 0))),
      random_draw = (\<lambda>n. 0)\<rparr>"

definition endgame_game :: game where
  "endgame_game =
     \<lparr>board = [''e2e4'', ''e7e5''],
      white_name = ''bot'', black_name = ''guest'', is_white = True,
      initial_time = 600000, increment = 0, white_time = 300000, black_time = 300000,
      draw_enabled = True, resign_enabled = True, ponder_enabled = True,
      move_overhead = 10000,
      out_of_book_counter = 0, out_of_opening_explorer_counter = 0,
      out_of_cloud_counter = 0, out_of_chessdb_counter = 0,
      draw_scores = [], resign_scores = [],
      last_message = None, status = ''started'', calls = [], draws = 0\<rparr>"

text \<open>The same ending with every move a win in 120: cursed wins under the fifty-move rule.\<close>

definition cursed_world :: world where
  "cursed_world = endgame_world\<lparr>probe_dtm := (\<lambda>b. Some (- 120)), probe_dtz := (\<lambda>b. Some (- 120))\<rparr>"

text \<open>The same ending with every move a loss in 120: blessed losses.\<close>

definition blessed_world :: world where
  "blessed_world = endgame_world\<lparr>probe_dtm := (\<lambda>b. Some 120), probe_dtz := (\<lambda>b. Some 120)\<rparr>"

text \<open>The online tablebase answers with the king move and calls the position a draw.\<close>

definition egtb_world :: world where
  "egtb_world =
     endgame_world\<lparr>get_egtb := (\<lambda>b v t.
        Some \<lparr>eg_moves = [\<lparr>egm_uci = ''g1f1'', egm_dtz = 0\<rparr>], eg_category = ''draw'',
              eg_dtm = None\<rparr>)\<rparr>"

text \<open>The same ending when the king move repeats an earlier position.\<close>

definition repeating_chess :: chess where
  "repeating_chess =
     endgame_chess\<lparr>is_repetition := (\<lambda>b n. b \<noteq> [] \<and> last b = ''g1f1'' \<and> n \<le> 2)\<rparr>"

text \<open>
  A game in which the four counted sources are switched on and each has missed ten times.
\<close>

definition weary_config :: config where
  "weary_config =
     quiet_config\<lparr>opening_books := (opening_books quiet_config)\<lparr>ob_enabled := True\<rparr>,
       opening_explorer := (opening_explorer quiet_config)\<lparr>oe_enabled := True\<rparr>,
       lichess_cloud := (lichess_cloud quiet_config)\<lparr>lc_enabled := True\<rparr>,
       chessdb := (chessdb quiet_config)\<lparr>cdb_enabled := True\<rparr>\<rparr>"

definition weary_game :: game where
  "weary_game =
     endgame_game\<lparr>out_of_book_counter := 10, out_of_opening_explorer_counter := 10,
       out_of_cloud_counter := 10, out_of_chessdb_counter := 10\<rparr>"

definition weary_game_after :: game where
  "weary_game_after =
     weary_game\<lparr>board := [''e2e4'', ''e7e5'', ''g1f1''],
       draw_scores := [Cp 0], resign_scores := [Cp 0], last_message := Some Engine,
       calls := [Play [''e2e4'', ''e7e5''] (Clock_Limit 290 0 300 0) True]\<rparr>"

text \<open>
  A middlegame position of 32 pieces in which two book readers and the three remote
  services all answer. The first book and the services prefer the king move, the second
  book knows the pawn move only. In the second version of the position the king move
  repeats an earlier position.
\<close>

definition opening_chess :: chess where
  "opening_chess = endgame_chess\<lparr>occupied_count := (\<lambda>b. 32)\<rparr>"

definition repeating_opening :: chess where
  "repeating_opening =
     opening_chess\<lparr>is_repetition := (\<lambda>b n. b \<noteq> [] \<and> last b = ''g1f1'' \<and> n \<le> 2)\<rparr>"

definition first_book :: "board \<Rightarrow> entry list" where
  "first_book b =
     [\<lparr>entry_move = ''g1f1'', entry_weight = 10, entry_learn = 0\<rparr>,
      \<lparr>entry_move = ''h6h7'', entry_weight = 5, entry_learn = 0\<rparr>]"

definition second_book :: "board \<Rightarrow> entry list" where
  "second_book b = [\<lparr>entry_move = ''h6h7'', entry_weight = 1, entry_learn = 0\<rparr>]"

definition online_world :: world where
  "online_world =
     endgame_world\<lparr>
       book_readers := [first_book, second_book],
       get_opening_explorer := (\<lambda>u b c t.
         Some \<lparr>er_white = 10, er_draws = 5, er_black = 3,
               er_moves = [\<lparr>em_uci = ''g1f1'', em_white = 6, em_draws = 2, em_black = 1,
                            em_performance = 2400, em_wins = 0, em_losses = 0\<rparr>]\<rparr>),
       get_cloud_eval := (\<lambda>b t.
         Some \<lparr>cr_error = False, cr_depth = 30,
               cr_pvs = [\<lparr>pv_moves = [''g1f1'', ''a7a8''], pv_cp = Some 35\<rparr>]\<rparr>),
       get_chessdb_eval := (\<lambda>b a t.
         Some \<lparr>cd_status = ''ok'', cd_depth = None, cd_move = Some ''g1f1'', cd_pv = []\<rparr>)\<rparr>"

section \<open>The best moves of a scan, as the specification words them\<close>

text \<open>
  A scan sees each legal move through its class and its comparison distance. A move is
  best when every legal move has a lower class, or the same class and no smaller distance.
\<close>

definition dominated :: "(uci_move \<Rightarrow> (int \<times> int) option) \<Rightarrow> int \<Rightarrow> int \<Rightarrow> uci_move \<Rightarrow> bool" where
  "dominated ev w d m' =
     (case ev m' of None \<Rightarrow> False | Some (w', d') \<Rightarrow> w' < w \<or> (w' = w \<and> d \<le> d'))"

definition best_among :: "(uci_move \<Rightarrow> (int \<times> int) option) \<Rightarrow> uci_move list \<Rightarrow> uci_move \<Rightarrow> bool" where
  "best_among ev ms m =
     (case ev m of None \<Rightarrow> False | Some (w, d) \<Rightarrow> list_all (dominated ev w d) ms)"

definition scan_inv :: "(uci_move \<Rightarrow> (int \<times> int) option) \<Rightarrow> uci_move list \<Rightarrow> uci_move list \<Rightarrow> int \<Rightarrow> int \<Rightarrow> bool" where
  "scan_inv ev seen bm bw bd =
     (if seen = [] then bm = []
      else bm \<noteq> [] \<and> bm = filter (\<lambda>m. ev m = Some (bw, bd)) seen \<and> list_all (dominated ev bw bd) seen)"

definition gaviota_eval :: "chess \<Rightarrow> world \<Rightarrow> board \<Rightarrow> uci_move \<Rightarrow> (int \<times> int) option" where
  "gaviota_eval ch env b m = gaviota_probe ch env (b @ [m])"

definition syzygy_eval :: "chess \<Rightarrow> world \<Rightarrow> board \<Rightarrow> uci_move \<Rightarrow> (int \<times> int) option" where
  "syzygy_eval ch env b m =
     (case syzygy_probe ch env (b @ [m]) of None \<Rightarrow> None | Some (w, d, r) \<Rightarrow> Some (w, d))"


section \<open>The course of a game\<close>

text \<open>
  A game goes on by decision cycles that return and by events of the server; the answers
  of the outside world may differ from one cycle to the next.
\<close>

inductive later :: "config \<Rightarrow> chess \<Rightarrow> game \<Rightarrow> game \<Rightarrow> bool" for cfg ch where
  later_refl: "later cfg ch s s"
| later_move: "later cfg ch s s1 \<Longrightarrow> make_move cfg ch env s1 = Inr (r, s2) \<Longrightarrow> later cfg ch s s2"
| later_update: "later cfg ch s s1 \<Longrightarrow> update ev s1 = (changed, s2) \<Longrightarrow> later cfg ch s s2"

text \<open>
  What every source leaves as it was: the board, the pondering switch, and each miss
  counter that has reached 10.
\<close>

definition quiet_step :: "game \<Rightarrow> game \<Rightarrow> bool" where
  "quiet_step s s' =
     (board s' = board s \<and> ponder_enabled s' = ponder_enabled s \<and>
      (10 \<le> out_of_book_counter s \<longrightarrow> out_of_book_counter s' = out_of_book_counter s) \<and>
      (10 \<le> out_of_opening_explorer_counter s \<longrightarrow>
         out_of_opening_explorer_counter s' = out_of_opening_explorer_counter s) \<and>
      (10 \<le> out_of_cloud_counter s \<longrightarrow> out_of_cloud_counter s' = out_of_cloud_counter s) \<and>
      (10 \<le> out_of_chessdb_counter s \<longrightarrow> out_of_chessdb_counter s' = out_of_chessdb_counter s))"

text \<open>What the chain of \<^verbatim>\<open>make_move\<close> hands to its tail, by the source of the move.\<close>

definition cycle_inv :: "game \<Rightarrow> selection \<Rightarrow> game \<Rightarrow> bool" where
  "cycle_inv s sel s1 =
     (case sel of (m, src, offer, res, eng) \<Rightarrow>
        board s1 = board s \<and>
        (if src = Gaviota \<or> src = Syzygy then
           \<not> ponder_enabled s1 \<and>
           (ponder_enabled s \<longrightarrow>
              calls s1 \<noteq> [] \<and> last (calls s1) = Analysis (board s) (Some (1 / 1000)))
         else ponder_enabled s1 = ponder_enabled s) \<and>
        eng = (src = Engine \<and> length (board s) > 1) \<and>
        (10 \<le> out_of_book_counter s \<longrightarrow> out_of_book_counter s1 = out_of_book_counter s) \<and>
        (10 \<le> out_of_opening_explorer_counter s \<longrightarrow>
           out_of_opening_explorer_counter s1 = out_of_opening_explorer_counter s) \<and>
        (10 \<le> out_of_cloud_counter s \<longrightarrow> out_of_cloud_counter s1 = out_of_cloud_counter s) \<and>
        (10 \<le> out_of_chessdb_counter s \<longrightarrow>
           out_of_chessdb_counter s1 = out_of_chessdb_counter s))"

section \<open>Unfolding the concrete positions\<close>

lemmas ex_defs = quiet_config_def gaviota_config_def syzygy_config_def egtb_config_def
  endgame_chess_def endgame_world_def endgame_game_def cursed_world_def blessed_world_def
  egtb_world_def repeating_chess_def weary_config_def weary_game_def
  weary_game_after_def opening_chess_def repeating_opening_def online_world_def
  first_book_def second_book_def

lemmas tb_defs = gaviota_probe_def gaviota_step_def syzygy_probe_def syzygy_step_def
  value_to_wdl_def return_choice_def random_choice_def gaviota_eval_def syzygy_eval_def
  best_among_def dominated_def

section \<open>Scanning the legal moves\<close>

lemma dominated_mono:
  "dominated ev w d m \<Longrightarrow> w < w' \<or> (w = w' \<and> d' \<le> d) \<Longrightarrow> dominated ev w' d' m"
  by (auto simp: dominated_def split: option.splits)

lemma gaviota_step_inv:
  assumes "scan_inv ev seen bm bw bd" and "ev m = Some (w, d)"
    and "gaviota_step m w d (bm, bw, bd) = (bm', bw', bd')"
  shows "scan_inv ev (seen @ [m]) bm' bw' bd'"
proof (cases "seen = []")
  case True
  with assms show ?thesis
    by (auto simp: scan_inv_def gaviota_step_def dominated_def)
next
  case False
  with assms(1) have inv: "bm \<noteq> [] \<and> bm = filter (\<lambda>m. ev m = Some (bw, bd)) seen \<and>
      list_all (dominated ev bw bd) seen"
    unfolding scan_inv_def by (rule if_not_P [THEN iffD1, rotated])
  then have bm: "bm \<noteq> []" "bm = filter (\<lambda>m. ev m = Some (bw, bd)) seen"
    and dom: "list_all (dominated ev bw bd) seen"
    by blast+
  consider (up) "w > bw" | (closer) "w = bw" "d < bd" | (tie) "w = bw" "d = bd"
    | (worse) "w < bw \<or> (w = bw \<and> d > bd)" by linarith
  then show ?thesis
  proof cases
    case up
    with assms(3) bm have r: "bm' = [m]" "bw' = w" "bd' = d" by (auto simp: gaviota_step_def)
    have "list_all (dominated ev w d) seen"
      using dom up by (auto simp: list_all_iff intro: dominated_mono)
    moreover have "filter (\<lambda>m. ev m = Some (w, d)) seen = []"
      using dom up by (auto simp: list_all_iff filter_empty_conv dominated_def)
    ultimately show ?thesis using r assms(2) by (simp add: scan_inv_def dominated_def)
  next
    case closer
    with assms(3) bm have r: "bm' = [m]" "bw' = w" "bd' = d" by (auto simp: gaviota_step_def)
    have "list_all (dominated ev w d) seen"
      using dom closer by (auto simp: list_all_iff intro: dominated_mono)
    moreover have "filter (\<lambda>m. ev m = Some (w, d)) seen = []"
      using dom closer by (auto simp: list_all_iff filter_empty_conv dominated_def)
    ultimately show ?thesis using r assms(2) by (simp add: scan_inv_def dominated_def)
  next
    case tie
    with assms(3) bm have r: "bm' = bm @ [m]" "bw' = bw" "bd' = bd" by (auto simp: gaviota_step_def)
    show ?thesis using r assms(2) tie bm dom False by (simp add: scan_inv_def dominated_def)
  next
    case worse
    with assms(3) bm have r: "bm' = bm" "bw' = bw" "bd' = bd" by (auto simp: gaviota_step_def)
    show ?thesis using r assms(2) worse bm dom False by (auto simp add: scan_inv_def dominated_def)
  qed
qed

lemma gaviota_scan_inv:
  "gaviota_scan ch env b ms (bm, bw, bd) = Some (bm', bw', bd') \<Longrightarrow>
   scan_inv (\<lambda>m. gaviota_probe ch env (b @ [m])) seen bm bw bd \<Longrightarrow>
   scan_inv (\<lambda>m. gaviota_probe ch env (b @ [m])) (seen @ ms) bm' bw' bd'"
proof (induction ms arbitrary: seen bm bw bd)
  case Nil
  then show ?case by simp
next
  case (Cons m ms)
  from Cons.prems(1) obtain w d where p: "gaviota_probe ch env (b @ [m]) = Some (w, d)"
    and sc: "gaviota_scan ch env b ms (gaviota_step m w d (bm, bw, bd)) = Some (bm', bw', bd')"
    by (auto split: option.splits)
  obtain bm1 bw1 bd1 where st: "gaviota_step m w d (bm, bw, bd) = (bm1, bw1, bd1)"
    by (cases "gaviota_step m w d (bm, bw, bd)") auto
  have "scan_inv (\<lambda>m. gaviota_probe ch env (b @ [m])) (seen @ [m]) bm1 bw1 bd1"
    using gaviota_step_inv [OF Cons.prems(2) _ st] p by simp
  from Cons.IH [OF _ this] sc st show ?case by simp
qed

lemma scan_inv_best:
  assumes "scan_inv ev seen bm bw bd"
  shows "bm = filter (best_among ev seen) seen"
proof (cases "seen = []")
  case True
  with assms show ?thesis by (simp add: scan_inv_def)
next
  case False
  with assms have inv: "bm \<noteq> [] \<and> bm = filter (\<lambda>m. ev m = Some (bw, bd)) seen \<and>
      list_all (dominated ev bw bd) seen"
    unfolding scan_inv_def by (rule if_not_P [THEN iffD1, rotated])
  then have bm: "bm \<noteq> []" "bm = filter (\<lambda>m. ev m = Some (bw, bd)) seen"
    and dom: "list_all (dominated ev bw bd) seen"
    by blast+
  from bm obtain x where x: "x \<in> set seen" "ev x = Some (bw, bd)"
    by (metis (mono_tags, lifting) filter_False)
  have "ev m = Some (bw, bd) \<longleftrightarrow> best_among ev seen m" if "m \<in> set seen" for m
  proof
    assume "ev m = Some (bw, bd)"
    then show "best_among ev seen m" using dom by (simp add: best_among_def)
  next
    assume b: "best_among ev seen m"
    then obtain w d where m: "ev m = Some (w, d)" and all: "list_all (dominated ev w d) seen"
      by (auto simp: best_among_def split: option.splits)
    from all x have "bw < w \<or> (bw = w \<and> d \<le> bd)" by (auto simp: list_all_iff dominated_def)
    moreover from dom that m have "w < bw \<or> (w = bw \<and> bd \<le> d)"
      by (auto simp: list_all_iff dominated_def)
    ultimately show "ev m = Some (bw, bd)" using m by auto
  qed
  then have "filter (\<lambda>m. ev m = Some (bw, bd)) seen = filter (best_among ev seen) seen"
    by (auto intro: filter_cong)
  with bm show ?thesis by simp
qed

lemma syzygy_step_fst:
  "syzygy_step m w d r (bm, bw, bd, br) = (bm', bw', bd', br') \<Longrightarrow>
   gaviota_step m w d (bm, bw, bd) = (bm', bw', bd')"
  by (auto simp: syzygy_step_def gaviota_step_def split: if_splits)



lemma syzygy_scan_inv:
  "syzygy_scan ch env b ms (bm, bw, bd, br) = Some (bm', bw', bd', br') \<Longrightarrow>
   scan_inv (syzygy_eval ch env b) seen bm bw bd \<Longrightarrow>
   scan_inv (syzygy_eval ch env b) (seen @ ms) bm' bw' bd'"
proof (induction ms arbitrary: seen bm bw bd br)
  case Nil
  then show ?case by simp
next
  case (Cons m ms)
  from Cons.prems(1) obtain w d r where p: "syzygy_probe ch env (b @ [m]) = Some (w, d, r)"
    and sc: "syzygy_scan ch env b ms (syzygy_step m w d r (bm, bw, bd, br)) = Some (bm', bw', bd', br')"
    by (auto split: option.splits)
  obtain bm1 bw1 bd1 br1 where st: "syzygy_step m w d r (bm, bw, bd, br) = (bm1, bw1, bd1, br1)"
    by (cases "syzygy_step m w d r (bm, bw, bd, br)") auto
  have "syzygy_eval ch env b m = Some (w, d)" using p by (simp add: syzygy_eval_def)
  from gaviota_step_inv [OF Cons.prems(2) this syzygy_step_fst [OF st]]
  have "scan_inv (syzygy_eval ch env b) (seen @ [m]) bm1 bw1 bd1" .
  from Cons.IH [OF _ this] sc st show ?case by simp
qed


lemma random_choice_in:
  "random_choice env xs s = Inr (x, s') \<Longrightarrow> x \<in> set xs \<and> s' = s\<lparr>draws := Suc (draws s)\<rparr>"
  by (auto simp: random_choice_def split: if_splits)

lemma return_choice_in:
  "return_choice env xs oc d f1 f2 s = Inr (Some (m, oc', d', f1', f2'), s') \<Longrightarrow>
   m \<in> set xs \<and> oc' = oc \<and> d' = d \<and> f1' = f1 \<and> f2' = f2 \<and> s' = s\<lparr>draws := Suc (draws s)\<rparr>"
  by (auto simp: return_choice_def split: sum.splits dest: random_choice_in)

lemma return_choice_not_None:
  "return_choice env xs oc d f1 f2 s \<noteq> Inr (None, s')"
  by (auto simp: return_choice_def split: sum.splits)

lemma make_gaviota_move_Some:
  assumes "make_gaviota_move cfg ch env s = Inr (Some (m, oc, d, f1, f2), s')"
  obtains bm bw where
    "gaviota_scan ch env (board s) (legal_moves ch (board s)) ([], - 2, 1000000) = Some (bm, bw, d)"
    "m \<in> set bm" "s' = s\<lparr>draws := Suc (draws s)\<rparr>"
    "(bw = 2 \<and> oc = ''win'' \<and> \<not> f1 \<and> \<not> f2) \<or> (bw = 0 \<and> oc = ''draw'' \<and> f1 \<and> \<not> f2) \<or>
     (bw = - 2 \<and> oc = ''loss'' \<and> \<not> f1 \<and> f2)"
  using assms
  by (auto simp: make_gaviota_move_def Let_def split: if_splits option.splits prod.splits
      dest!: return_choice_in)

lemma make_syzygy_move_Some:
  assumes "make_syzygy_move cfg ch env s = Inr (Some (m, oc, d, f1, f2), s')"
  obtains bm bw bd where
    "syzygy_scan ch env (board s) (legal_moves ch (board s)) ([], - 2, 1000000, 1000000)
       = Some (bm, bw, bd, d)"
    "m \<in> set bm" "s' = s\<lparr>draws := Suc (draws s)\<rparr>"
    "(bw = 2 \<and> oc = ''win'' \<and> \<not> f1 \<and> \<not> f2) \<or> (bw = 1 \<and> oc = ''cursed win'' \<and> \<not> f1 \<and> \<not> f2) \<or>
     (bw = 0 \<and> oc = ''draw'' \<and> f1 \<and> \<not> f2) \<or> (bw = - 1 \<and> oc = ''blessed loss'' \<and> f1 \<and> \<not> f2) \<or>
     (bw \<notin> {2, 1, 0, - 1} \<and> oc = ''loss'' \<and> \<not> f1 \<and> f2)"
  using assms
  by (auto simp: make_syzygy_move_def Let_def split: if_splits option.splits prod.splits
      dest!: return_choice_in)

lemma scan_inv_init: "scan_inv ev [] [] w d"
  by (simp add: scan_inv_def)

lemma gaviota_best_set:
  assumes "gaviota_scan ch env b ms ([], - 2, 1000000) = Some (bm, bw, bd)"
  shows "bm = filter (best_among (gaviota_eval ch env b) ms) ms"
proof -
  have "scan_inv (gaviota_eval ch env b) ([] @ ms) bm bw bd"
    unfolding gaviota_eval_def by (rule gaviota_scan_inv [OF assms]) (rule scan_inv_init)
  then show ?thesis using scan_inv_best by simp
qed

lemma syzygy_best_set:
  assumes "syzygy_scan ch env b ms ([], - 2, 1000000, 1000000) = Some (bm, bw, bd, br)"
  shows "bm = filter (best_among (syzygy_eval ch env b) ms) ms"
proof -
  have "scan_inv (syzygy_eval ch env b) ([] @ ms) bm bw bd"
    by (rule syzygy_scan_inv [OF assms]) (rule scan_inv_init)
  then show ?thesis using scan_inv_best by simp
qed

lemma scan_inv_members:
  assumes "scan_inv ev seen bm bw bd" and "x \<in> set bm"
  shows "x \<in> set seen \<and> ev x = Some (bw, bd)"
proof -
  from assms(2) have "bm \<noteq> []" by auto
  with assms(1) have "bm = filter (\<lambda>m. ev m = Some (bw, bd)) seen"
    by (cases "seen = []") (auto simp: scan_inv_def)
  with assms(2) show ?thesis by (metis (mono_tags, lifting) mem_Collect_eq set_filter)
qed

lemma scan_inv_class:
  assumes "scan_inv ev seen bm bw bd" and "seen \<noteq> []"
  shows "(\<exists>x \<in> set seen. ev x = Some (bw, bd)) \<and>
         (\<forall>x \<in> set seen. \<exists>w d. ev x = Some (w, d) \<and> w \<le> bw)"
proof -
  from assms have "bm \<noteq> [] \<and> bm = filter (\<lambda>m. ev m = Some (bw, bd)) seen \<and>
      list_all (dominated ev bw bd) seen"
    unfolding scan_inv_def by (rule if_not_P [THEN iffD1, rotated])
  then have ne: "bm \<noteq> []" and dom: "list_all (dominated ev bw bd) seen"
    by blast+
  from ne obtain x where "x \<in> set bm" by (cases bm) auto
  with assms(1) have "x \<in> set seen \<and> ev x = Some (bw, bd)" by (rule scan_inv_members)
  moreover have "\<exists>w d. ev y = Some (w, d) \<and> w \<le> bw" if "y \<in> set seen" for y
  proof -
    from dom that have "dominated ev bw bd y" by (simp add: list_all_iff)
    then show ?thesis by (cases "ev y") (auto simp: dominated_def)
  qed
  ultimately show ?thesis by blast
qed

lemma gaviota_scan_total:
  "\<forall>x \<in> set ms. gaviota_probe ch env (b @ [x]) \<noteq> None \<Longrightarrow>
   \<exists>best. gaviota_scan ch env b ms acc = Some best"
proof (induction ms arbitrary: acc)
  case Nil
  show ?case by (rule exI [of _ acc]) simp
next
  case (Cons x ms)
  then obtain w d where p: "gaviota_probe ch env (b @ [x]) = Some (w, d)" by fastforce
  from Cons.prems have "\<forall>y \<in> set ms. gaviota_probe ch env (b @ [y]) \<noteq> None" by simp
  from Cons.IH [OF this, of "gaviota_step x w d acc"] p show ?case by simp
qed

lemma syzygy_scan_total:
  "\<forall>x \<in> set ms. syzygy_probe ch env (b @ [x]) \<noteq> None \<Longrightarrow>
   \<exists>best. syzygy_scan ch env b ms acc = Some best"
proof (induction ms arbitrary: acc)
  case Nil
  show ?case by (rule exI [of _ acc]) simp
next
  case (Cons x ms)
  then obtain w d r where p: "syzygy_probe ch env (b @ [x]) = Some (w, d, r)" by fastforce
  from Cons.prems have "\<forall>y \<in> set ms. syzygy_probe ch env (b @ [y]) \<noteq> None" by simp
  from Cons.IH [OF this, of "syzygy_step x w d r acc"] p show ?case by simp
qed

lemma syzygy_probe_covered:
  "syzygy_probe ch env bc \<noteq> None \<longleftrightarrow> probe_dtz env bc \<noteq> None"
  by (simp add: syzygy_probe_def Let_def split: option.splits)

lemma gaviota_probe_covered:
  "gaviota_probe ch env bc \<noteq> None \<longleftrightarrow> is_checkmate ch bc \<or> probe_dtm env bc \<noteq> None"
  by (simp add: gaviota_probe_def Let_def split: option.splits)

lemma return_choice_nonempty:
  "xs \<noteq> [] \<Longrightarrow>
   return_choice env xs oc d f1 f2 s
     = Inr (Some (xs ! (random_draw env (draws s) mod length xs), oc, d, f1, f2),
         s\<lparr>draws := Suc (draws s)\<rparr>)"
  by (simp add: return_choice_def random_choice_def)

lemma scan_inv_nonempty:
  "scan_inv ev seen bm bw bd \<Longrightarrow> seen \<noteq> [] \<Longrightarrow> bm \<noteq> []"
  by (auto simp: scan_inv_def)

text \<open>Under its gate, with every probe answered, the Syzygy selector returns a best move.\<close>

lemma make_syzygy_move_returns:
  assumes en: "syzygy_enabled (tablebases cfg)" "syzygy_instant_play (tablebases cfg)"
    and eg: "occupied_count ch (board s) \<le> syzygy_max_pieces (tablebases cfg)"
    and var: "uci_variant ch \<in> {''chess'', ''antichess'', ''atomic''}"
    and ne: "legal_moves ch (board s) \<noteq> []"
    and cov: "\<forall>x \<in> set (legal_moves ch (board s)). probe_dtz env (board s @ [x]) \<noteq> None"
  shows "\<exists>m oc d f1 f2.
      make_syzygy_move cfg ch env s = Inr (Some (m, oc, d, f1, f2), s\<lparr>draws := Suc (draws s)\<rparr>) \<and>
      m \<in> set (filter (best_among (syzygy_eval ch env (board s)) (legal_moves ch (board s)))
                 (legal_moves ch (board s)))"
proof -
  let ?ms = "legal_moves ch (board s)"
  from cov have "\<forall>x \<in> set ?ms. syzygy_probe ch env (board s @ [x]) \<noteq> None"
    using syzygy_probe_covered by blast
  then obtain best where "syzygy_scan ch env (board s) ?ms ([], - 2, 1000000, 1000000) = Some best"
    using syzygy_scan_total by blast
  then obtain bm bw bd br where
    sc: "syzygy_scan ch env (board s) ?ms ([], - 2, 1000000, 1000000) = Some (bm, bw, bd, br)"
    by (cases best) auto
  have "scan_inv (syzygy_eval ch env (board s)) ([] @ ?ms) bm bw bd"
    by (rule syzygy_scan_inv [OF sc]) (rule scan_inv_init)
  with ne have bne: "bm \<noteq> []" using scan_inv_nonempty by fastforce
  let ?m = "bm ! (random_draw env (draws s) mod length bm)"
  from bne have "?m \<in> set bm" by simp
  then have best: "?m \<in> set (filter (best_among (syzygy_eval ch env (board s)) ?ms) ?ms)"
    using syzygy_best_set [OF sc] by simp
  have "\<exists>oc f1 f2. make_syzygy_move cfg ch env s
      = Inr (Some (?m, oc, br, f1, f2), s\<lparr>draws := Suc (draws s)\<rparr>)"
    using en eg var sc by (auto simp: make_syzygy_move_def return_choice_nonempty [OF bne])
  with best show ?thesis by blast
qed

text \<open>
  Under its gate, with a scan that ends in class 2, 0 or -2, the Gaviota selector returns
  a best move.
\<close>

lemma make_gaviota_move_returns:
  assumes en: "gaviota_enabled (tablebases cfg)"
    and eg: "occupied_count ch (board s) \<le> gaviota_max_pieces (tablebases cfg)"
    and var: "uci_variant ch = ''chess''"
    and ne: "legal_moves ch (board s) \<noteq> []"
    and sc: "gaviota_scan ch env (board s) (legal_moves ch (board s)) ([], - 2, 1000000)
               = Some (bm, bw, bd)"
    and cl: "bw = 2 \<or> bw = 0 \<or> bw = - 2"
  shows "\<exists>m oc f1 f2.
      make_gaviota_move cfg ch env s = Inr (Some (m, oc, bd, f1, f2), s\<lparr>draws := Suc (draws s)\<rparr>) \<and>
      m \<in> set (filter (best_among (gaviota_eval ch env (board s)) (legal_moves ch (board s)))
                 (legal_moves ch (board s)))"
proof -
  let ?ms = "legal_moves ch (board s)"
  have "scan_inv (gaviota_eval ch env (board s)) ([] @ ?ms) bm bw bd"
    unfolding gaviota_eval_def by (rule gaviota_scan_inv [OF sc]) (rule scan_inv_init)
  with ne have bne: "bm \<noteq> []" using scan_inv_nonempty by fastforce
  let ?m = "bm ! (random_draw env (draws s) mod length bm)"
  from bne have "?m \<in> set bm" by simp
  then have best: "?m \<in> set (filter (best_among (gaviota_eval ch env (board s)) ?ms) ?ms)"
    using gaviota_best_set [OF sc] by simp
  have "\<exists>oc f1 f2. make_gaviota_move cfg ch env s
      = Inr (Some (?m, oc, bd, f1, f2), s\<lparr>draws := Suc (draws s)\<rparr>)"
    using en eg var sc cl by (auto simp: make_gaviota_move_def return_choice_nonempty [OF bne])
  with best show ?thesis by blast
qed

section \<open>The outcome classifier\<close>

lemma value_to_wdl_range: "value_to_wdl v h \<in> {- 2, - 1, 0, 1, 2}"
  by (simp add: value_to_wdl_def)


text \<open>
  Claim C1. For every signed distance \<open>d\<close> and halfmove clock \<open>h\<close> the classifier gives
  2 when \<open>d > 0\<close> and \<open>d + h \<le> 100\<close>, 1 when \<open>d > 0\<close> and \<open>d + h > 100\<close>, -2 when
  \<open>d < 0\<close> and \<open>d - h \<ge> -100\<close>, -1 when \<open>d < 0\<close> and \<open>d - h < -100\<close>, and 0 when
  \<open>d = 0\<close>; in particular the four concrete values of the specification.
\<close>

theorem C1_value_to_wdl_classes:
  "(0 < d \<and> d + h \<le> 100 \<longrightarrow> value_to_wdl d h = 2) \<and>
   (0 < d \<and> 100 < d + h \<longrightarrow> value_to_wdl d h = 1) \<and>
   (d < 0 \<and> - 100 \<le> d - h \<longrightarrow> value_to_wdl d h = - 2) \<and>
   (d < 0 \<and> d - h < - 100 \<longrightarrow> value_to_wdl d h = - 1) \<and>
   (d = 0 \<longrightarrow> value_to_wdl d h = 0) \<and>
   value_to_wdl 5 96 = 1 \<and> value_to_wdl 5 90 = 2 \<and>
   value_to_wdl (- 5) 96 = - 1 \<and> value_to_wdl 0 40 = 0"
  by (simp add: value_to_wdl_def)

theorem C1_value_to_wdl_classes_witness:
  "value_to_wdl 7 93 = 2 \<and> value_to_wdl 7 94 = 1 \<and> value_to_wdl (- 7) 93 = - 2 \<and>
   value_to_wdl (- 7) 94 = - 1 \<and> value_to_wdl 0 12 = 0"
  using C1_value_to_wdl_classes [of 7 93] C1_value_to_wdl_classes [of 7 94]
    C1_value_to_wdl_classes [of "- 7" 93] C1_value_to_wdl_classes [of "- 7" 94]
    C1_value_to_wdl_classes [of 0 12]
  by simp

section \<open>The tablebase selectors\<close>

lemma gaviota_example:
  "make_gaviota_move gaviota_config endgame_chess endgame_world endgame_game
     = Inr (Some (''g7g8q'', ''win'', 3, False, False), endgame_game\<lparr>draws := 1\<rparr>)"
  by (simp add: ex_defs tb_defs make_gaviota_move_def)

lemma syzygy_example:
  "make_syzygy_move syzygy_config endgame_chess endgame_world endgame_game
     = Inr (Some (''g7g8q'', ''win'', 3, False, False), endgame_game\<lparr>draws := 1\<rparr>)"
  by (simp add: ex_defs tb_defs make_syzygy_move_def Let_def)

lemma gaviota_scan_example:
  "gaviota_scan endgame_chess endgame_world (board endgame_game)
       (legal_moves endgame_chess (board endgame_game)) ([], - 2, 1000000)
     = Some ([''g7g8q''], 2, 3)"
  by (simp add: ex_defs tb_defs)

lemma syzygy_scan_example:
  "syzygy_scan endgame_chess endgame_world (board endgame_game)
       (legal_moves endgame_chess (board endgame_game)) ([], - 2, 1000000, 1000000)
     = Some ([''g7g8q''], 2, - 9997, 3)"
  by (simp add: ex_defs tb_defs)

text \<open>
  Claim C5. After the scan of all legal moves the best-so-far list holds exactly the moves
  of maximal class whose comparison distance is minimal within that class, ties included,
  in both selectors, and a returned move is one of them. The scan ends whenever every
  probe is answered, and under its gate the Syzygy selector then returns a move of the
  best list, as the Gaviota selector does when the best class is 2, 0 or -2. With a win
  in 3, a win in 7 and a cursed win in 1 both scans keep the win in 3 alone, and both
  selectors return that move whatever the random draw.
\<close>

theorem C5_best_moves:
  "(gaviota_scan ch env b (legal_moves ch b) ([], - 2, 1000000) = Some (bm, bw, bd) \<longrightarrow>
      bm = filter (best_among (gaviota_eval ch env b) (legal_moves ch b)) (legal_moves ch b)) \<and>
   (make_gaviota_move cfg ch env s = Inr (Some (m, oc, d, f1, f2), s') \<longrightarrow>
      m \<in> set (filter (best_among (gaviota_eval ch env (board s)) (legal_moves ch (board s)))
                 (legal_moves ch (board s)))) \<and>
   (syzygy_scan ch env b (legal_moves ch b) ([], - 2, 1000000, 1000000) = Some (zm, zw, zd, zr) \<longrightarrow>
      zm = filter (best_among (syzygy_eval ch env b) (legal_moves ch b)) (legal_moves ch b)) \<and>
   (make_syzygy_move cfg' ch env s = Inr (Some (m2, oc2, d2, g1, g2), s2) \<longrightarrow>
      m2 \<in> set (filter (best_among (syzygy_eval ch env (board s)) (legal_moves ch (board s)))
                 (legal_moves ch (board s)))) \<and>
   gaviota_scan endgame_chess endgame_world (board endgame_game)
       (legal_moves endgame_chess (board endgame_game)) ([], - 2, 1000000)
     = Some ([''g7g8q''], 2, 3) \<and>
   make_gaviota_move gaviota_config endgame_chess (endgame_world\<lparr>random_draw := r\<rparr>) endgame_game
     = Inr (Some (''g7g8q'', ''win'', 3, False, False), endgame_game\<lparr>draws := 1\<rparr>) \<and>
   ((\<forall>x \<in> set (legal_moves ch b).
        is_checkmate ch (b @ [x]) \<or> probe_dtm env (b @ [x]) \<noteq> None) \<longrightarrow>
      (\<exists>best. gaviota_scan ch env b (legal_moves ch b) ([], - 2, 1000000) = Some best)) \<and>
   ((\<forall>x \<in> set (legal_moves ch b). probe_dtz env (b @ [x]) \<noteq> None) \<longrightarrow>
      (\<exists>best. syzygy_scan ch env b (legal_moves ch b) ([], - 2, 1000000, 1000000) = Some best)) \<and>
   (gaviota_enabled (tablebases cfg) \<and>
    occupied_count ch (board s) \<le> gaviota_max_pieces (tablebases cfg) \<and>
    uci_variant ch = ''chess'' \<and> legal_moves ch (board s) \<noteq> [] \<and>
    gaviota_scan ch env (board s) (legal_moves ch (board s)) ([], - 2, 1000000)
      = Some (bm, bw, bd) \<and>
    (bw = 2 \<or> bw = 0 \<or> bw = - 2) \<longrightarrow>
      (\<exists>x oc f1 f2.
          make_gaviota_move cfg ch env s
            = Inr (Some (x, oc, bd, f1, f2), s\<lparr>draws := Suc (draws s)\<rparr>) \<and>
          x \<in> set (filter (best_among (gaviota_eval ch env (board s)) (legal_moves ch (board s)))
                     (legal_moves ch (board s))))) \<and>
   (syzygy_enabled (tablebases cfg') \<and> syzygy_instant_play (tablebases cfg') \<and>
    occupied_count ch (board s) \<le> syzygy_max_pieces (tablebases cfg') \<and>
    uci_variant ch \<in> {''chess'', ''antichess'', ''atomic''} \<and>
    legal_moves ch (board s) \<noteq> [] \<and>
    (\<forall>x \<in> set (legal_moves ch (board s)). probe_dtz env (board s @ [x]) \<noteq> None) \<longrightarrow>
      (\<exists>x oc d f1 f2.
          make_syzygy_move cfg' ch env s
            = Inr (Some (x, oc, d, f1, f2), s\<lparr>draws := Suc (draws s)\<rparr>) \<and>
          x \<in> set (filter (best_among (syzygy_eval ch env (board s)) (legal_moves ch (board s)))
                     (legal_moves ch (board s))))) \<and>
   syzygy_scan endgame_chess endgame_world (board endgame_game)
       (legal_moves endgame_chess (board endgame_game)) ([], - 2, 1000000, 1000000)
     = Some ([''g7g8q''], 2, - 9997, 3) \<and>
   make_syzygy_move syzygy_config endgame_chess (endgame_world\<lparr>random_draw := r\<rparr>) endgame_game
     = Inr (Some (''g7g8q'', ''win'', 3, False, False), endgame_game\<lparr>draws := 1\<rparr>)"
proof (intro conjI impI)
  assume "gaviota_scan ch env b (legal_moves ch b) ([], - 2, 1000000) = Some (bm, bw, bd)"
  then show "bm = filter (best_among (gaviota_eval ch env b) (legal_moves ch b)) (legal_moves ch b)"
    by (rule gaviota_best_set)
next
  assume "make_gaviota_move cfg ch env s = Inr (Some (m, oc, d, f1, f2), s')"
  then obtain xs w where
    "gaviota_scan ch env (board s) (legal_moves ch (board s)) ([], - 2, 1000000) = Some (xs, w, d)"
    and "m \<in> set xs"
    by (rule make_gaviota_move_Some)
  then show "m \<in> set (filter (best_among (gaviota_eval ch env (board s)) (legal_moves ch (board s)))
                 (legal_moves ch (board s)))"
    using gaviota_best_set by metis
next
  assume "syzygy_scan ch env b (legal_moves ch b) ([], - 2, 1000000, 1000000) = Some (zm, zw, zd, zr)"
  then show "zm = filter (best_among (syzygy_eval ch env b) (legal_moves ch b)) (legal_moves ch b)"
    by (rule syzygy_best_set)
next
  assume "make_syzygy_move cfg' ch env s = Inr (Some (m2, oc2, d2, g1, g2), s2)"
  then obtain xs w d where
    "syzygy_scan ch env (board s) (legal_moves ch (board s)) ([], - 2, 1000000, 1000000)
      = Some (xs, w, d, d2)"
    and "m2 \<in> set xs"
    by (rule make_syzygy_move_Some)
  then show "m2 \<in> set (filter (best_among (syzygy_eval ch env (board s)) (legal_moves ch (board s)))
                 (legal_moves ch (board s)))"
    using syzygy_best_set by metis
next
  show "gaviota_scan endgame_chess endgame_world (board endgame_game)
       (legal_moves endgame_chess (board endgame_game)) ([], - 2, 1000000)
     = Some ([''g7g8q''], 2, 3)"
    by (simp add: ex_defs tb_defs)
next
  show "make_gaviota_move gaviota_config endgame_chess (endgame_world\<lparr>random_draw := r\<rparr>) endgame_game
     = Inr (Some (''g7g8q'', ''win'', 3, False, False), endgame_game\<lparr>draws := 1\<rparr>)"
    by (simp add: ex_defs tb_defs make_gaviota_move_def)
next
  assume "\<forall>x \<in> set (legal_moves ch b). is_checkmate ch (b @ [x]) \<or> probe_dtm env (b @ [x]) \<noteq> None"
  then have "\<forall>x \<in> set (legal_moves ch b). gaviota_probe ch env (b @ [x]) \<noteq> None"
    using gaviota_probe_covered by blast
  then show "\<exists>best. gaviota_scan ch env b (legal_moves ch b) ([], - 2, 1000000) = Some best"
    by (rule gaviota_scan_total)
next
  assume "\<forall>x \<in> set (legal_moves ch b). probe_dtz env (b @ [x]) \<noteq> None"
  then have "\<forall>x \<in> set (legal_moves ch b). syzygy_probe ch env (b @ [x]) \<noteq> None"
    using syzygy_probe_covered by blast
  then show "\<exists>best. syzygy_scan ch env b (legal_moves ch b) ([], - 2, 1000000, 1000000) = Some best"
    by (rule syzygy_scan_total)
next
  assume a: "gaviota_enabled (tablebases cfg) \<and>
    occupied_count ch (board s) \<le> gaviota_max_pieces (tablebases cfg) \<and>
    uci_variant ch = ''chess'' \<and> legal_moves ch (board s) \<noteq> [] \<and>
    gaviota_scan ch env (board s) (legal_moves ch (board s)) ([], - 2, 1000000)
      = Some (bm, bw, bd) \<and>
    (bw = 2 \<or> bw = 0 \<or> bw = - 2)"
  show "\<exists>x oc f1 f2.
          make_gaviota_move cfg ch env s
            = Inr (Some (x, oc, bd, f1, f2), s\<lparr>draws := Suc (draws s)\<rparr>) \<and>
          x \<in> set (filter (best_among (gaviota_eval ch env (board s)) (legal_moves ch (board s)))
                     (legal_moves ch (board s)))"
    by (rule make_gaviota_move_returns [where bw = bw and bm = bm]) (use a in simp_all)
next
  assume a: "syzygy_enabled (tablebases cfg') \<and> syzygy_instant_play (tablebases cfg') \<and>
    occupied_count ch (board s) \<le> syzygy_max_pieces (tablebases cfg') \<and>
    uci_variant ch \<in> {''chess'', ''antichess'', ''atomic''} \<and>
    legal_moves ch (board s) \<noteq> [] \<and>
    (\<forall>x \<in> set (legal_moves ch (board s)). probe_dtz env (board s @ [x]) \<noteq> None)"
  show "\<exists>x oc d f1 f2.
          make_syzygy_move cfg' ch env s
            = Inr (Some (x, oc, d, f1, f2), s\<lparr>draws := Suc (draws s)\<rparr>) \<and>
          x \<in> set (filter (best_among (syzygy_eval ch env (board s)) (legal_moves ch (board s)))
                     (legal_moves ch (board s)))"
    by (rule make_syzygy_move_returns) (use a in simp_all)
next
  show "syzygy_scan endgame_chess endgame_world (board endgame_game)
       (legal_moves endgame_chess (board endgame_game)) ([], - 2, 1000000, 1000000)
     = Some ([''g7g8q''], 2, - 9997, 3)"
    by (simp add: ex_defs tb_defs)
next
  show "make_syzygy_move syzygy_config endgame_chess (endgame_world\<lparr>random_draw := r\<rparr>) endgame_game
     = Inr (Some (''g7g8q'', ''win'', 3, False, False), endgame_game\<lparr>draws := 1\<rparr>)"
    by (simp add: ex_defs tb_defs make_syzygy_move_def Let_def)
qed

lemma endgame_gates:
  "gaviota_enabled (tablebases gaviota_config)"
  "occupied_count endgame_chess (board endgame_game) \<le> gaviota_max_pieces (tablebases gaviota_config)"
  "uci_variant endgame_chess = ''chess''"
  "legal_moves endgame_chess (board endgame_game) = [''g7g8q'', ''h6h7'', ''g1f1'']"
  "syzygy_enabled (tablebases syzygy_config)" "syzygy_instant_play (tablebases syzygy_config)"
  "occupied_count endgame_chess (board endgame_game) \<le> syzygy_max_pieces (tablebases syzygy_config)"
  "probe_dtz endgame_world (board endgame_game @ [''g7g8q'']) = Some (- 3)"
  "probe_dtz endgame_world (board endgame_game @ [''h6h7'']) = Some (- 7)"
  "probe_dtz endgame_world (board endgame_game @ [''g1f1'']) = Some (- 1)"
  by (simp_all add: ex_defs)

theorem C5_best_moves_witness:
  "gaviota_scan endgame_chess endgame_world (board endgame_game)
       (legal_moves endgame_chess (board endgame_game)) ([], - 2, 1000000)
     = Some ([''g7g8q''], 2, 3) \<and>
   syzygy_scan endgame_chess endgame_world (board endgame_game)
       (legal_moves endgame_chess (board endgame_game)) ([], - 2, 1000000, 1000000)
     = Some ([''g7g8q''], 2, - 9997, 3) \<and>
   filter (best_among (gaviota_eval endgame_chess endgame_world (board endgame_game))
        (legal_moves endgame_chess (board endgame_game))) (legal_moves endgame_chess (board endgame_game))
     = [''g7g8q''] \<and>
   filter (best_among (syzygy_eval endgame_chess endgame_world (board endgame_game))
        (legal_moves endgame_chess (board endgame_game))) (legal_moves endgame_chess (board endgame_game))
     = [''g7g8q''] \<and>
   make_gaviota_move gaviota_config endgame_chess endgame_world endgame_game
     = Inr (Some (''g7g8q'', ''win'', 3, False, False), endgame_game\<lparr>draws := 1\<rparr>) \<and>
   make_syzygy_move syzygy_config endgame_chess endgame_world endgame_game
     = Inr (Some (''g7g8q'', ''win'', 3, False, False), endgame_game\<lparr>draws := 1\<rparr>) \<and>
   (\<exists>x oc f1 f2.
      make_gaviota_move gaviota_config endgame_chess endgame_world endgame_game
        = Inr (Some (x, oc, 3, f1, f2), endgame_game\<lparr>draws := Suc (draws endgame_game)\<rparr>) \<and>
      x \<in> set [''g7g8q'']) \<and>
   (\<exists>x oc d f1 f2.
      make_syzygy_move syzygy_config endgame_chess endgame_world endgame_game
        = Inr (Some (x, oc, d, f1, f2), endgame_game\<lparr>draws := Suc (draws endgame_game)\<rparr>) \<and>
      x \<in> set [''g7g8q''])"
proof -
  note t = C5_best_moves [where ch = endgame_chess and env = endgame_world
      and b = "board endgame_game" and s = endgame_game
      and bm = "[''g7g8q'']" and bw = 2 and bd = 3
      and cfg = gaviota_config and m = "''g7g8q''" and oc = "''win''" and d = 3
      and ?f1.0 = False and ?f2.0 = False and s' = "endgame_game\<lparr>draws := 1\<rparr>"
      and zm = "[''g7g8q'']" and zw = 2 and zd = "- 9997" and zr = 3
      and cfg' = syzygy_config and ?m2.0 = "''g7g8q''" and ?oc2.0 = "''win''" and ?d2.0 = 3
      and ?g1.0 = False and ?g2.0 = False and ?s2.0 = "endgame_game\<lparr>draws := 1\<rparr>"
      and r = "\<lambda>n. 0"]
  note c1 = t [THEN conjunct1, rule_format, OF gaviota_scan_example]
  note c3 = t [THEN conjunct2, THEN conjunct2, THEN conjunct1, rule_format,
      OF syzygy_scan_example]
  have hg: "gaviota_enabled (tablebases gaviota_config) \<and>
    occupied_count endgame_chess (board endgame_game)
      \<le> gaviota_max_pieces (tablebases gaviota_config) \<and>
    uci_variant endgame_chess = ''chess'' \<and> legal_moves endgame_chess (board endgame_game) \<noteq> [] \<and>
    gaviota_scan endgame_chess endgame_world (board endgame_game)
        (legal_moves endgame_chess (board endgame_game)) ([], - 2, 1000000)
      = Some ([''g7g8q''], 2, 3) \<and>
    ((2::int) = 2 \<or> (2::int) = 0 \<or> (2::int) = - 2)"
    using endgame_gates(1-4) gaviota_scan_example by simp
  note c9 = t [THEN conjunct2, THEN conjunct2, THEN conjunct2, THEN conjunct2, THEN conjunct2,
      THEN conjunct2, THEN conjunct2, THEN conjunct2, THEN conjunct1, rule_format, OF hg]
  have hz: "syzygy_enabled (tablebases syzygy_config) \<and>
    syzygy_instant_play (tablebases syzygy_config) \<and>
    occupied_count endgame_chess (board endgame_game)
      \<le> syzygy_max_pieces (tablebases syzygy_config) \<and>
    uci_variant endgame_chess \<in> {''chess'', ''antichess'', ''atomic''} \<and>
    legal_moves endgame_chess (board endgame_game) \<noteq> [] \<and>
    (\<forall>x \<in> set (legal_moves endgame_chess (board endgame_game)).
        probe_dtz endgame_world (board endgame_game @ [x]) \<noteq> None)"
    using endgame_gates(3-10) by simp
  note c10 = t [THEN conjunct2, THEN conjunct2, THEN conjunct2, THEN conjunct2, THEN conjunct2,
      THEN conjunct2, THEN conjunct2, THEN conjunct2, THEN conjunct2, THEN conjunct1,
      rule_format, OF hz]
  from c9 c1 have gr: "\<exists>x oc f1 f2.
      make_gaviota_move gaviota_config endgame_chess endgame_world endgame_game
        = Inr (Some (x, oc, 3, f1, f2), endgame_game\<lparr>draws := Suc (draws endgame_game)\<rparr>) \<and>
      x \<in> set [''g7g8q'']"
    by simp
  from c10 c3 have zr: "\<exists>x oc d f1 f2.
      make_syzygy_move syzygy_config endgame_chess endgame_world endgame_game
        = Inr (Some (x, oc, d, f1, f2), endgame_game\<lparr>draws := Suc (draws endgame_game)\<rparr>) \<and>
      x \<in> set [''g7g8q'']"
    by simp
  from gr zr c1 [symmetric] c3 [symmetric] gaviota_scan_example syzygy_scan_example
    gaviota_example syzygy_example
  show ?thesis by (intro conjI)
qed

lemma syzygy_probe_parts:
  assumes "syzygy_probe ch env bc = Some (w, d, r)"
  shows "probe_dtz env bc = Some (- r)" and "w = value_to_wdl r (halfmove_clock ch bc)"
    and "halfmove_clock ch bc = 0 \<Longrightarrow> w > 0 \<Longrightarrow> d = r - 10000"
    and "halfmove_clock ch bc = 0 \<Longrightarrow> w < 0 \<Longrightarrow> d = r + 10000"
    and "halfmove_clock ch bc = 0 \<Longrightarrow> w = 0 \<Longrightarrow> d = r"
    and "halfmove_clock ch bc \<noteq> 0 \<Longrightarrow> d = r"
  using assms by (auto simp: syzygy_probe_def Let_def split: option.splits if_splits)






lemma make_gaviota_move_declines:
  assumes "gaviota_scan ch env (board s) (legal_moves ch (board s)) ([], - 2, 1000000)
             = Some (bm, bw, bd)"
    and "bw = 1 \<or> bw = - 1"
  shows "make_gaviota_move cfg ch env s = Inr (None, s)"
  using assms by (auto simp: make_gaviota_move_def Let_def)

lemma gaviota_scan_class:
  assumes "gaviota_scan ch env b ms ([], - 2, 1000000) = Some (bm, bw, bd)" and "ms \<noteq> []"
  shows "(\<exists>x \<in> set ms. gaviota_eval ch env b x = Some (bw, bd)) \<and>
         (\<forall>x \<in> set ms. \<exists>w d. gaviota_eval ch env b x = Some (w, d) \<and> w \<le> bw)"
proof -
  have "scan_inv (gaviota_eval ch env b) ([] @ ms) bm bw bd"
    unfolding gaviota_eval_def by (rule gaviota_scan_inv [OF assms(1)]) (rule scan_inv_init)
  then show ?thesis using scan_inv_class assms(2) by simp
qed

lemma cursed_scan_example:
  "gaviota_scan endgame_chess cursed_world (board endgame_game)
       (legal_moves endgame_chess (board endgame_game)) ([], - 2, 1000000)
     = Some ([''g7g8q'', ''h6h7'', ''g1f1''], 1, 120)"
  by (simp add: ex_defs tb_defs)

text \<open>
  Claim C10. The Gaviota source returns a move only when the best class over the legal
  moves is 2, 0 or -2. When the best class is 1 or -1 it returns no move and leaves the
  game as it was, and the decision cycle goes on with the Syzygy source.
\<close>

theorem C10_gaviota_declines_cursed_and_blessed:
  "(make_gaviota_move cfg ch env s = Inr (Some (m, oc, d, f1, f2), s') \<longrightarrow>
      (\<exists>bm bw.
          gaviota_scan ch env (board s) (legal_moves ch (board s)) ([], - 2, 1000000)
            = Some (bm, bw, d) \<and> (bw = 2 \<or> bw = 0 \<or> bw = - 2))) \<and>
   (gaviota_scan ch env (board s) (legal_moves ch (board s)) ([], - 2, 1000000)
      = Some (bm, bw, bd) \<and> legal_moves ch (board s) \<noteq> [] \<longrightarrow>
      (\<exists>x \<in> set (legal_moves ch (board s)). gaviota_eval ch env (board s) x = Some (bw, bd)) \<and>
      (\<forall>x \<in> set (legal_moves ch (board s)).
          \<exists>w d. gaviota_eval ch env (board s) x = Some (w, d) \<and> w \<le> bw)) \<and>
   (gaviota_scan ch env (board s) (legal_moves ch (board s)) ([], - 2, 1000000)
      = Some (bm, bw, bd) \<and> (bw = 1 \<or> bw = - 1) \<longrightarrow>
      make_gaviota_move cfg ch env s = Inr (None, s) \<and>
      select_gaviota cfg ch env s = select_syzygy cfg ch env s)"
proof (intro conjI impI)
  assume "make_gaviota_move cfg ch env s = Inr (Some (m, oc, d, f1, f2), s')"
  then obtain xs w where
    "gaviota_scan ch env (board s) (legal_moves ch (board s)) ([], - 2, 1000000) = Some (xs, w, d)"
    and "(w = 2 \<and> oc = ''win'' \<and> \<not> f1 \<and> \<not> f2) \<or> (w = 0 \<and> oc = ''draw'' \<and> f1 \<and> \<not> f2) \<or>
     (w = - 2 \<and> oc = ''loss'' \<and> \<not> f1 \<and> f2)"
    by (rule make_gaviota_move_Some)
  then show "\<exists>bm bw.
          gaviota_scan ch env (board s) (legal_moves ch (board s)) ([], - 2, 1000000)
            = Some (bm, bw, d) \<and> (bw = 2 \<or> bw = 0 \<or> bw = - 2)"
    by blast
next
  assume a: "gaviota_scan ch env (board s) (legal_moves ch (board s)) ([], - 2, 1000000)
      = Some (bm, bw, bd) \<and> legal_moves ch (board s) \<noteq> []"
  then have c: "(\<exists>x \<in> set (legal_moves ch (board s)). gaviota_eval ch env (board s) x = Some (bw, bd)) \<and>
      (\<forall>x \<in> set (legal_moves ch (board s)).
          \<exists>w d. gaviota_eval ch env (board s) x = Some (w, d) \<and> w \<le> bw)"
    using gaviota_scan_class by blast
  from c show "\<exists>x \<in> set (legal_moves ch (board s)). gaviota_eval ch env (board s) x = Some (bw, bd)"
    by (rule conjunct1)
  from c show "\<forall>x \<in> set (legal_moves ch (board s)).
          \<exists>w d. gaviota_eval ch env (board s) x = Some (w, d) \<and> w \<le> bw"
    by (rule conjunct2)
next
  assume a: "gaviota_scan ch env (board s) (legal_moves ch (board s)) ([], - 2, 1000000)
      = Some (bm, bw, bd) \<and> (bw = 1 \<or> bw = - 1)"
  then show n: "make_gaviota_move cfg ch env s = Inr (None, s)"
    using make_gaviota_move_declines by blast
  then show "select_gaviota cfg ch env s = select_syzygy cfg ch env s"
    by (simp add: select_gaviota_def)
qed

theorem C10_gaviota_declines_cursed_and_blessed_witness:
  "make_gaviota_move gaviota_config endgame_chess endgame_world endgame_game
     = Inr (Some (''g7g8q'', ''win'', 3, False, False), endgame_game\<lparr>draws := 1\<rparr>) \<and>
   gaviota_scan endgame_chess cursed_world (board endgame_game)
       (legal_moves endgame_chess (board endgame_game)) ([], - 2, 1000000)
     = Some ([''g7g8q'', ''h6h7'', ''g1f1''], 1, 120) \<and>
   legal_moves endgame_chess (board endgame_game) \<noteq> [] \<and>
   make_gaviota_move gaviota_config endgame_chess cursed_world endgame_game
     = Inr (None, endgame_game) \<and>
   select_gaviota gaviota_config endgame_chess cursed_world endgame_game
     = select_syzygy gaviota_config endgame_chess cursed_world endgame_game"
proof -
  have ne: "legal_moves endgame_chess (board endgame_game) \<noteq> []"
    by (simp add: ex_defs)
  from C10_gaviota_declines_cursed_and_blessed [where cfg = gaviota_config
      and ch = endgame_chess and env = cursed_world and s = endgame_game
      and bm = "[''g7g8q'', ''h6h7'', ''g1f1'']" and bw = 1 and bd = 120]
    cursed_scan_example ne
  have "make_gaviota_move gaviota_config endgame_chess cursed_world endgame_game
     = Inr (None, endgame_game) \<and>
   select_gaviota gaviota_config endgame_chess cursed_world endgame_game
     = select_syzygy gaviota_config endgame_chess cursed_world endgame_game"
    by simp
  moreover from C10_gaviota_declines_cursed_and_blessed [where cfg = gaviota_config
      and ch = endgame_chess and env = endgame_world and s = endgame_game
      and m = "''g7g8q''" and oc = "''win''" and d = 3 and ?f1.0 = False and ?f2.0 = False
      and s' = "endgame_game\<lparr>draws := 1\<rparr>"] gaviota_example
  have "\<exists>bm bw. gaviota_scan endgame_chess endgame_world (board endgame_game)
       (legal_moves endgame_chess (board endgame_game)) ([], - 2, 1000000) = Some (bm, bw, 3)"
    by blast
  ultimately show ?thesis using gaviota_example cursed_scan_example ne by simp
qed

lemma syzygy_scan_range:
  assumes "syzygy_scan ch env b ms ([], - 2, 1000000, 1000000) = Some (bm, bw, bd, br)"
  shows "bw \<in> {- 2, - 1, 0, 1, 2}"
proof (cases "ms = []")
  case True
  with assms show ?thesis by simp
next
  case False
  have "scan_inv (syzygy_eval ch env b) ([] @ ms) bm bw bd"
    by (rule syzygy_scan_inv [OF assms]) (rule scan_inv_init)
  with False obtain x where "syzygy_eval ch env b x = Some (bw, bd)"
    using scan_inv_class by fastforce
  then obtain r where "syzygy_probe ch env (b @ [x]) = Some (bw, bd, r)"
    by (auto simp: syzygy_eval_def split: option.splits)
  then have "bw = value_to_wdl r (halfmove_clock ch (b @ [x]))"
    by (rule syzygy_probe_parts(2))
  then show ?thesis using value_to_wdl_range by simp
qed

lemma make_egtb_move_Some:
  assumes "make_egtb_move cfg ch env s = Inr (Some (m, oc, dtz, dtm, offer, res), s')"
  shows "offer = (oc = ''draw'' \<or> oc = ''blessed loss'')" and "res = (oc = ''loss'')"
  using assms
  by (auto simp: make_egtb_move_def Let_def split: if_splits option.splits sum.splits)

lemma blessed_scan_example:
  "syzygy_scan endgame_chess blessed_world (board endgame_game)
       (legal_moves endgame_chess (board endgame_game)) ([], - 2, 1000000, 1000000)
     = Some ([''g1f1''], - 1, - 120, - 120)"
  by (simp add: ex_defs tb_defs)

lemma blessed_move_example:
  "make_syzygy_move syzygy_config endgame_chess blessed_world endgame_game
     = Inr (Some (''g1f1'', ''blessed loss'', - 120, True, False), endgame_game\<lparr>draws := 1\<rparr>)"
  by (simp add: ex_defs tb_defs make_syzygy_move_def Let_def)

lemma egtb_move_example:
  "make_egtb_move egtb_config endgame_chess egtb_world endgame_game
     = Inr (Some (''g1f1'', ''draw'', 0, None, True, False),
         endgame_game\<lparr>calls := [EGTB_Query [''e2e4'', ''e7e5''] ''standard'' 3]\<rparr>)"
  by (simp add: ex_defs make_egtb_move_def has_time_def log_call_def first_of_def Let_def)

text \<open>
  Claim C2, as stated, fails: the Syzygy selector whose best class is -1 (blessed loss)
  returns its move with the draw offer set.
\<close>

theorem C2_blessed_loss_offers_draw:
  "syzygy_scan endgame_chess blessed_world (board endgame_game)
       (legal_moves endgame_chess (board endgame_game)) ([], - 2, 1000000, 1000000)
     = Some ([''g1f1''], - 1, - 120, - 120) \<and>
   make_syzygy_move syzygy_config endgame_chess blessed_world endgame_game
     = Inr (Some (''g1f1'', ''blessed loss'', - 120, True, False), endgame_game\<lparr>draws := 1\<rparr>)"
  by (simp add: ex_defs tb_defs make_syzygy_move_def Let_def)

text \<open>
  Claim C2, amended. With the move they return, Gaviota sets the draw offer alone for best
  class 0, the resignation alone for -2 and neither for 2, and returns nothing for 1 and
  -1; Syzygy sets the draw offer alone for classes 0 and -1, the resignation alone for -2
  and neither for 2 and 1; the online tablebase sets the draw offer alone for the
  categories draw and blessed loss, the resignation alone for loss and neither otherwise.
\<close>

theorem C2_tablebase_flags:
  "(make_gaviota_move cfg ch env s = Inr (Some (m, oc, d, offer, res), s') \<longrightarrow>
      (\<exists>bm bw.
          gaviota_scan ch env (board s) (legal_moves ch (board s)) ([], - 2, 1000000)
            = Some (bm, bw, d) \<and>
          (bw = 2 \<or> bw = 0 \<or> bw = - 2) \<and>
          (bw = 0 \<longrightarrow> offer \<and> \<not> res) \<and> (bw = - 2 \<longrightarrow> res \<and> \<not> offer) \<and>
          (bw = 2 \<longrightarrow> \<not> offer \<and> \<not> res))) \<and>
   (make_syzygy_move cfg' ch env s = Inr (Some (m2, oc2, d2, offer2, res2), s2) \<longrightarrow>
      (\<exists>bm bw bd.
          syzygy_scan ch env (board s) (legal_moves ch (board s)) ([], - 2, 1000000, 1000000)
            = Some (bm, bw, bd, d2) \<and>
          bw \<in> {- 2, - 1, 0, 1, 2} \<and>
          (bw = 0 \<or> bw = - 1 \<longrightarrow> offer2 \<and> \<not> res2) \<and> (bw = - 2 \<longrightarrow> res2 \<and> \<not> offer2) \<and>
          (bw = 2 \<or> bw = 1 \<longrightarrow> \<not> offer2 \<and> \<not> res2))) \<and>
   (make_egtb_move cfg'' ch env s = Inr (Some (m3, oc3, dtz, dtm, offer3, res3), s3) \<longrightarrow>
      (oc3 = ''draw'' \<or> oc3 = ''blessed loss'' \<longrightarrow> offer3 \<and> \<not> res3) \<and>
      (oc3 = ''loss'' \<longrightarrow> res3 \<and> \<not> offer3) \<and>
      (oc3 \<noteq> ''draw'' \<and> oc3 \<noteq> ''blessed loss'' \<and> oc3 \<noteq> ''loss'' \<longrightarrow> \<not> offer3 \<and> \<not> res3))"
proof (intro conjI impI)
  assume "make_gaviota_move cfg ch env s = Inr (Some (m, oc, d, offer, res), s')"
  then obtain xs w where
    "gaviota_scan ch env (board s) (legal_moves ch (board s)) ([], - 2, 1000000) = Some (xs, w, d)"
    and "(w = 2 \<and> oc = ''win'' \<and> \<not> offer \<and> \<not> res) \<or> (w = 0 \<and> oc = ''draw'' \<and> offer \<and> \<not> res) \<or>
     (w = - 2 \<and> oc = ''loss'' \<and> \<not> offer \<and> res)"
    by (rule make_gaviota_move_Some)
  then show "\<exists>bm bw.
          gaviota_scan ch env (board s) (legal_moves ch (board s)) ([], - 2, 1000000)
            = Some (bm, bw, d) \<and>
          (bw = 2 \<or> bw = 0 \<or> bw = - 2) \<and>
          (bw = 0 \<longrightarrow> offer \<and> \<not> res) \<and> (bw = - 2 \<longrightarrow> res \<and> \<not> offer) \<and>
          (bw = 2 \<longrightarrow> \<not> offer \<and> \<not> res)"
    by auto
next
  assume "make_syzygy_move cfg' ch env s = Inr (Some (m2, oc2, d2, offer2, res2), s2)"
  then obtain xs w d where
    sc: "syzygy_scan ch env (board s) (legal_moves ch (board s)) ([], - 2, 1000000, 1000000)
      = Some (xs, w, d, d2)"
    and fl: "(w = 2 \<and> oc2 = ''win'' \<and> \<not> offer2 \<and> \<not> res2) \<or>
     (w = 1 \<and> oc2 = ''cursed win'' \<and> \<not> offer2 \<and> \<not> res2) \<or>
     (w = 0 \<and> oc2 = ''draw'' \<and> offer2 \<and> \<not> res2) \<or>
     (w = - 1 \<and> oc2 = ''blessed loss'' \<and> offer2 \<and> \<not> res2) \<or>
     (w \<notin> {2, 1, 0, - 1} \<and> oc2 = ''loss'' \<and> \<not> offer2 \<and> res2)"
    by (rule make_syzygy_move_Some)
  have "w \<in> {- 2, - 1, 0, 1, 2}" by (rule syzygy_scan_range [OF sc])
  with sc fl show "\<exists>bm bw bd.
          syzygy_scan ch env (board s) (legal_moves ch (board s)) ([], - 2, 1000000, 1000000)
            = Some (bm, bw, bd, d2) \<and>
          bw \<in> {- 2, - 1, 0, 1, 2} \<and>
          (bw = 0 \<or> bw = - 1 \<longrightarrow> offer2 \<and> \<not> res2) \<and> (bw = - 2 \<longrightarrow> res2 \<and> \<not> offer2) \<and>
          (bw = 2 \<or> bw = 1 \<longrightarrow> \<not> offer2 \<and> \<not> res2)"
    by (intro exI [of _ xs] exI [of _ w] exI [of _ d]) auto
next
  assume e: "make_egtb_move cfg'' ch env s = Inr (Some (m3, oc3, dtz, dtm, offer3, res3), s3)"
  note f = make_egtb_move_Some [OF e]
  show "offer3" if "oc3 = ''draw'' \<or> oc3 = ''blessed loss''" using f that by simp
  show "\<not> res3" if "oc3 = ''draw'' \<or> oc3 = ''blessed loss''" using f that by auto
  show "res3" if "oc3 = ''loss''" using f that by simp
  show "\<not> offer3" if "oc3 = ''loss''" using f that by simp
  show "\<not> offer3" if "oc3 \<noteq> ''draw'' \<and> oc3 \<noteq> ''blessed loss'' \<and> oc3 \<noteq> ''loss''"
    using f that by simp
  show "\<not> res3" if "oc3 \<noteq> ''draw'' \<and> oc3 \<noteq> ''blessed loss'' \<and> oc3 \<noteq> ''loss''"
    using f that by simp
qed

theorem C2_tablebase_flags_witness:
  "make_gaviota_move gaviota_config endgame_chess endgame_world endgame_game
     = Inr (Some (''g7g8q'', ''win'', 3, False, False), endgame_game\<lparr>draws := 1\<rparr>) \<and>
   make_syzygy_move syzygy_config endgame_chess blessed_world endgame_game
     = Inr (Some (''g1f1'', ''blessed loss'', - 120, True, False), endgame_game\<lparr>draws := 1\<rparr>) \<and>
   make_egtb_move egtb_config endgame_chess egtb_world endgame_game
     = Inr (Some (''g1f1'', ''draw'', 0, None, True, False),
         endgame_game\<lparr>calls := [EGTB_Query [''e2e4'', ''e7e5''] ''standard'' 3]\<rparr>) \<and>
   (\<exists>bm bw. gaviota_scan endgame_chess endgame_world (board endgame_game)
       (legal_moves endgame_chess (board endgame_game)) ([], - 2, 1000000)
         = Some (bm, bw, 3) \<and> (bw = 2 \<or> bw = 0 \<or> bw = - 2)) \<and>
   (\<exists>bm bw bd. syzygy_scan endgame_chess blessed_world (board endgame_game)
       (legal_moves endgame_chess (board endgame_game)) ([], - 2, 1000000, 1000000)
         = Some (bm, bw, bd, - 120) \<and> bw \<in> {- 2, - 1, 0, 1, 2})"
proof -
  have g: "\<exists>bm bw. gaviota_scan endgame_chess endgame_world (board endgame_game)
       (legal_moves endgame_chess (board endgame_game)) ([], - 2, 1000000)
         = Some (bm, bw, 3) \<and> (bw = 2 \<or> bw = 0 \<or> bw = - 2)"
    using C2_tablebase_flags [where ch = endgame_chess and env = endgame_world
      and s = endgame_game and cfg = gaviota_config and m = "''g7g8q''" and oc = "''win''"
      and d = 3 and offer = False and res = False and s' = "endgame_game\<lparr>draws := 1\<rparr>",
      THEN conjunct1, rule_format, OF gaviota_example]
    by blast
  have z: "\<exists>bm bw bd. syzygy_scan endgame_chess blessed_world (board endgame_game)
       (legal_moves endgame_chess (board endgame_game)) ([], - 2, 1000000, 1000000)
         = Some (bm, bw, bd, - 120) \<and> bw \<in> {- 2, - 1, 0, 1, 2}"
    using C2_tablebase_flags [where ch = endgame_chess and env = blessed_world
      and s = endgame_game and cfg' = syzygy_config and ?m2.0 = "''g1f1''"
      and ?oc2.0 = "''blessed loss''" and ?d2.0 = "- 120" and ?offer2.0 = True
      and ?res2.0 = False and ?s2.0 = "endgame_game\<lparr>draws := 1\<rparr>",
      THEN conjunct2, THEN conjunct1, rule_format, OF blessed_move_example]
    by blast
  have e: "(''draw'' = ''draw'' \<or> ''draw'' = ''blessed loss'' \<longrightarrow> True \<and> \<not> False)"
    using C2_tablebase_flags [where ch = endgame_chess and env = egtb_world
      and s = endgame_game and cfg'' = egtb_config and ?m3.0 = "''g1f1''"
      and ?oc3.0 = "''draw''" and dtz = 0 and dtm = None and ?offer3.0 = True
      and ?res3.0 = False
      and ?s3.0 = "endgame_game\<lparr>calls := [EGTB_Query [''e2e4'', ''e7e5''] ''standard'' 3]\<rparr>",
      THEN conjunct2, THEN conjunct2, rule_format, OF egtb_move_example]
    by blast
  from g z e gaviota_example blessed_move_example egtb_move_example show ?thesis
    by (intro conjI)
qed

section \<open>What a source leaves untouched\<close>

lemma random_choice_frame:
  "random_choice env xs s = Inr (x, s') \<Longrightarrow> s' = s\<lparr>draws := Suc (draws s)\<rparr>"
  by (auto simp: random_choice_def split: if_splits)

lemma weighted_choice_frame:
  "weighted_choice env xs ws s = Inr (x, s') \<Longrightarrow> s' = s\<lparr>draws := Suc (draws s)\<rparr>"
  by (auto simp: weighted_choice_def Let_def split: if_splits)

lemma select_entry_frame:
  "select_entry cfg env entries s = Inr (en, s') \<Longrightarrow>
   s' = s \<or> s' = s\<lparr>draws := Suc (draws s)\<rparr>"
  by (auto simp: select_entry_def split: if_splits sum.splits
      dest: random_choice_frame weighted_choice_frame)

lemma select_entry_fields:
  assumes "select_entry cfg env entries s = Inr (en, s')"
  shows "board s' = board s \<and> ponder_enabled s' = ponder_enabled s \<and>
    out_of_book_counter s' = out_of_book_counter s \<and>
    out_of_opening_explorer_counter s' = out_of_opening_explorer_counter s \<and>
    out_of_cloud_counter s' = out_of_cloud_counter s \<and>
    out_of_chessdb_counter s' = out_of_chessdb_counter s"
  using select_entry_frame [OF assms] by auto

lemma book_loop_frame:
  "book_loop cfg ch env i readers s = Inr (r, s') \<Longrightarrow>
   board s' = board s \<and> ponder_enabled s' = ponder_enabled s \<and>
   out_of_opening_explorer_counter s' = out_of_opening_explorer_counter s \<and>
   out_of_cloud_counter s' = out_of_cloud_counter s \<and>
   out_of_chessdb_counter s' = out_of_chessdb_counter s"
proof (induction readers arbitrary: i s)
  case Nil
  then show ?case by auto
next
  case (Cons reader rest)
  let ?s1 = "log_call (Book_Lookup i (board s)) s"
  show ?case
  proof (cases "reader (board s) = []")
    case True
    with Cons.prems have "book_loop cfg ch env (Suc i) rest ?s1 = Inr (r, s')"
      by (simp add: Let_def)
    from Cons.IH [OF this] show ?thesis by (simp add: log_call_def)
  next
    case False
    with Cons.prems obtain en s2 where
      se: "select_entry cfg env (reader (board s)) ?s1 = Inr (en, s2)"
      by (auto simp: Let_def split: sum.splits)
    note s2 = select_entry_fields [OF se]
    show ?thesis
    proof (cases "is_repetition_after ch s2 (entry_move en)")
      case True
      with Cons.prems False se have "book_loop cfg ch env (Suc i) rest s2 = Inr (r, s')"
        by (simp add: Let_def)
      from Cons.IH [OF this] s2 show ?thesis by (simp add: log_call_def)
    next
      case rep: False
      with Cons.prems False se have "s' = s2\<lparr>out_of_book_counter := 0\<rparr>"
        by (auto simp: Let_def split: if_splits)
      with s2 show ?thesis by (simp add: log_call_def)
    qed
  qed
qed

lemma book_loop_no_repetition:
  "book_loop cfg ch env i readers s = Inr (Some (m, w, l), s') \<Longrightarrow>
   \<not> is_repetition ch (board s @ [m]) 2"
proof (induction readers arbitrary: i s)
  case Nil
  then show ?case by simp
next
  case (Cons reader rest)
  let ?s1 = "log_call (Book_Lookup i (board s)) s"
  have b1: "board ?s1 = board s" by (simp add: log_call_def)
  show ?case
  proof (cases "reader (board s) = []")
    case True
    with Cons.prems have "book_loop cfg ch env (Suc i) rest ?s1 = Inr (Some (m, w, l), s')"
      by (simp add: Let_def)
    from Cons.IH [OF this] b1 show ?thesis by simp
  next
    case False
    with Cons.prems obtain en s2 where
      se: "select_entry cfg env (reader (board s)) ?s1 = Inr (en, s2)"
      by (auto simp: Let_def split: sum.splits)
    from select_entry_frame [OF se] b1 have b2: "board s2 = board s" by auto
    show ?thesis
    proof (cases "is_repetition_after ch s2 (entry_move en)")
      case True
      with Cons.prems False se have "book_loop cfg ch env (Suc i) rest s2 = Inr (Some (m, w, l), s')"
        by (simp add: Let_def)
      from Cons.IH [OF this] b2 show ?thesis by simp
    next
      case rep: False
      with Cons.prems False se have "m = entry_move en"
        by (auto simp: Let_def split: if_splits)
      with rep b2 show ?thesis by (simp add: is_repetition_after_def)
    qed
  qed
qed

lemma make_book_move_frame:
  assumes "make_book_move cfg ch env s = Inr (r, s')"
  shows "board s' = board s \<and> ponder_enabled s' = ponder_enabled s \<and>
   out_of_opening_explorer_counter s' = out_of_opening_explorer_counter s \<and>
   out_of_cloud_counter s' = out_of_cloud_counter s \<and>
   out_of_chessdb_counter s' = out_of_chessdb_counter s"
proof (cases "\<not> ob_enabled (opening_books cfg) \<or> out_of_book_counter s \<ge> 10 \<or>
    too_deep ch s (ob_max_depth (opening_books cfg))")
  case True
  with assms have "s' = s" by (auto simp: make_book_move_def Let_def split: if_splits)
  then show ?thesis by simp
next
  case False
  with assms have "book_loop cfg ch env 0 (book_readers env) s = Inr (r, s')"
    by (auto simp: make_book_move_def Let_def split: if_splits)
  then show ?thesis by (rule book_loop_frame)
qed

lemma make_book_move_disabled:
  "10 \<le> out_of_book_counter s \<Longrightarrow> make_book_move cfg ch env s = Inr (None, s)"
  by (simp add: make_book_move_def Let_def)

lemma make_book_move_no_repetition:
  assumes "make_book_move cfg ch env s = Inr (Some (m, w, l), s')"
  shows "\<not> is_repetition ch (board s @ [m]) 2"
proof -
  from assms have "book_loop cfg ch env 0 (book_readers env) s = Inr (Some (m, w, l), s')"
    by (auto simp: make_book_move_def Let_def split: if_splits)
  then show ?thesis by (rule book_loop_no_repetition)
qed

lemma reduce_own_time_fields:
  "board (reduce_own_time s ms) = board s"
  "ponder_enabled (reduce_own_time s ms) = ponder_enabled s"
  "out_of_book_counter (reduce_own_time s ms) = out_of_book_counter s"
  "out_of_opening_explorer_counter (reduce_own_time s ms) = out_of_opening_explorer_counter s"
  "out_of_cloud_counter (reduce_own_time s ms) = out_of_cloud_counter s"
  "out_of_chessdb_counter (reduce_own_time s ms) = out_of_chessdb_counter s"
  by (simp_all add: reduce_own_time_def)

lemma log_call_fields:
  "board (log_call c s) = board s"
  "ponder_enabled (log_call c s) = ponder_enabled s"
  "out_of_book_counter (log_call c s) = out_of_book_counter s"
  "out_of_opening_explorer_counter (log_call c s) = out_of_opening_explorer_counter s"
  "out_of_cloud_counter (log_call c s) = out_of_cloud_counter s"
  "out_of_chessdb_counter (log_call c s) = out_of_chessdb_counter s"
  by (simp_all add: log_call_def)

lemma make_opening_explorer_move_disabled:
  "10 \<le> out_of_opening_explorer_counter s \<Longrightarrow>
   make_opening_explorer_move cfg ch env s = Inr (None, s)"
  by (simp add: make_opening_explorer_move_def Let_def)

lemma make_opening_explorer_move_frame:
  assumes "make_opening_explorer_move cfg ch env s = Inr (r, s')"
  shows "board s' = board s \<and> ponder_enabled s' = ponder_enabled s \<and>
   out_of_book_counter s' = out_of_book_counter s \<and>
   out_of_cloud_counter s' = out_of_cloud_counter s \<and>
   out_of_chessdb_counter s' = out_of_chessdb_counter s \<and>
   (\<forall>m p w d l. r = Some (m, p, w, d, l) \<longrightarrow> \<not> is_repetition ch (board s @ [m]) 2)"
  using assms
  by (auto simp: make_opening_explorer_move_def Let_def explorer_miss_def
      reduce_own_time_fields log_call_fields is_repetition_after_def
      split: if_splits option.splits sum.splits)

lemma make_cloud_move_disabled:
  "10 \<le> out_of_cloud_counter s \<Longrightarrow> make_cloud_move cfg ch env s = Inr (None, s)"
  by (simp add: make_cloud_move_def Let_def)

lemma make_cloud_move_frame:
  assumes "make_cloud_move cfg ch env s = Inr (r, s')"
  shows "board s' = board s \<and> ponder_enabled s' = ponder_enabled s \<and>
   out_of_book_counter s' = out_of_book_counter s \<and>
   out_of_opening_explorer_counter s' = out_of_opening_explorer_counter s \<and>
   out_of_chessdb_counter s' = out_of_chessdb_counter s \<and>
   (\<forall>m cp d. r = Some (m, cp, d) \<longrightarrow> \<not> is_repetition ch (board s @ [m]) 2)"
  using assms
  by (auto simp: make_cloud_move_def Let_def cloud_miss_def
      reduce_own_time_fields log_call_fields is_repetition_after_def
      split: if_splits option.splits sum.splits)

lemma make_chessdb_move_disabled:
  "10 \<le> out_of_chessdb_counter s \<Longrightarrow> make_chessdb_move cfg ch env s = Inr (None, s)"
  by (simp add: make_chessdb_move_def Let_def)

lemma make_chessdb_move_frame:
  assumes "make_chessdb_move cfg ch env s = Inr (r, s')"
  shows "board s' = board s \<and> ponder_enabled s' = ponder_enabled s \<and>
   out_of_book_counter s' = out_of_book_counter s \<and>
   out_of_opening_explorer_counter s' = out_of_opening_explorer_counter s \<and>
   out_of_cloud_counter s' = out_of_cloud_counter s \<and>
   (\<forall>m. r = Some m \<longrightarrow> \<not> is_repetition ch (board s @ [m]) 2)"
  using assms
  by (auto simp: make_chessdb_move_def Let_def chessdb_miss_def
      reduce_own_time_fields log_call_fields is_repetition_after_def
      split: if_splits option.splits sum.splits)

section \<open>The engine branch\<close>

lemma length_deque_append: "length (deque_append n xs x) = min n (Suc (length xs))"
  by (simp add: deque_append_def Let_def)

lemma is_drawish_iff:
  "is_drawish cfg ch s \<longleftrightarrow>
     draw_enabled s \<and>
     draw_min_game_length (offers cfg) \<le> fullmove_number ch (board s) \<and>
     draw_consecutive_moves (offers cfg) \<le> length (draw_scores s) \<and>
     (\<forall>sc \<in> set (draw_scores s). \<bar>score_value 40000 sc\<bar> \<le> draw_score (offers cfg))"
  by (auto simp: is_drawish_def Let_def list_all_iff not_less)

lemma make_engine_move_frame:
  assumes "make_engine_move cfg env s = Inr ((m, info), s1)"
  shows "\<exists>c sc. s1 = s\<lparr>calls := calls s @ [c],
           draw_scores := deque_append (draw_consecutive_moves (offers cfg)) (draw_scores s) sc,
           resign_scores := deque_append (resign_consecutive_moves (offers cfg)) (resign_scores s) sc\<rparr>"
proof -
  obtain lim ponder where lp: "(if length (board s) < 2 then (Time_Limit 15, False)
             else
               (let white_clock =
                      (if is_white s then
                         (if white_time s > move_overhead s
                          then rat_of_int (white_time s - move_overhead s)
                          else rat_of_int (white_time s) / 2) / 1000
                       else rat_of_int (white_time s) / 1000);
                    black_clock =
                      (if is_white s then rat_of_int (black_time s) / 1000
                       else
                         (if black_time s > move_overhead s
                          then rat_of_int (black_time s - move_overhead s)
                          else rat_of_int (black_time s) / 2) / 1000);
                    inc = rat_of_int (increment s) / 1000
                in (Clock_Limit white_clock inc black_clock inc, ponder_enabled s))) = (lim, ponder)"
    by fastforce
  obtain mv i where ep: "engine_play env (board s) lim ponder = (mv, i)" by fastforce
  show ?thesis
    using assms unfolding make_engine_move_def lp
    by (cases mv) (auto simp: ep log_call_def Let_def)
qed

lemma select_engine_offer:
  assumes "select_engine cfg ch env s = Inr ((m, src, offer, res, eng), s1)"
  shows "src = Engine" and "offer = is_drawish cfg ch s1" and "res = is_resignable cfg s1"
    and "eng = (length (board s1) > 1)"
    and "\<exists>info. make_engine_move cfg env s = Inr ((m, info), s1)"
  using assms by (auto simp: select_engine_def split: sum.splits prod.splits)

section \<open>The chain of sources\<close>

lemma return_choice_frame:
  "return_choice env xs oc d f1 f2 s = Inr (r, s') \<Longrightarrow> s' = s\<lparr>draws := Suc (draws s)\<rparr>"
  by (auto simp: return_choice_def split: sum.splits dest: random_choice_frame)

lemma quiet_step_refl: "quiet_step s s"
  by (simp add: quiet_step_def)

lemma quiet_step_draws: "quiet_step s (s\<lparr>draws := d\<rparr>)"
  by (simp add: quiet_step_def)

lemma make_book_move_quiet:
  assumes "make_book_move cfg ch env s = Inr (r, s')"
  shows "quiet_step s s'"
proof (cases "10 \<le> out_of_book_counter s")
  case True
  with assms have "s' = s" by (simp add: make_book_move_disabled)
  then show ?thesis by (simp add: quiet_step_refl)
next
  case False
  with make_book_move_frame [OF assms] show ?thesis by (simp add: quiet_step_def)
qed

lemma make_opening_explorer_move_quiet:
  assumes "make_opening_explorer_move cfg ch env s = Inr (r, s')"
  shows "quiet_step s s'"
proof (cases "10 \<le> out_of_opening_explorer_counter s")
  case True
  with assms have "s' = s" by (simp add: make_opening_explorer_move_disabled)
  then show ?thesis by (simp add: quiet_step_refl)
next
  case False
  with make_opening_explorer_move_frame [OF assms] show ?thesis by (simp add: quiet_step_def)
qed

lemma make_cloud_move_quiet:
  assumes "make_cloud_move cfg ch env s = Inr (r, s')"
  shows "quiet_step s s'"
proof (cases "10 \<le> out_of_cloud_counter s")
  case True
  with assms have "s' = s" by (simp add: make_cloud_move_disabled)
  then show ?thesis by (simp add: quiet_step_refl)
next
  case False
  with make_cloud_move_frame [OF assms] show ?thesis by (simp add: quiet_step_def)
qed

lemma make_chessdb_move_quiet:
  assumes "make_chessdb_move cfg ch env s = Inr (r, s')"
  shows "quiet_step s s'"
proof (cases "10 \<le> out_of_chessdb_counter s")
  case True
  with assms have "s' = s" by (simp add: make_chessdb_move_disabled)
  then show ?thesis by (simp add: quiet_step_refl)
next
  case False
  with make_chessdb_move_frame [OF assms] show ?thesis by (simp add: quiet_step_def)
qed

lemma make_gaviota_move_quiet:
  assumes "make_gaviota_move cfg ch env s = Inr (r, s')"
  shows "quiet_step s s'"
proof -
  from assms have "s' = s \<or> s' = s\<lparr>draws := Suc (draws s)\<rparr>"
    by (auto simp: make_gaviota_move_def Let_def
        split: if_splits option.splits prod.splits dest: return_choice_frame)
  then show ?thesis using quiet_step_refl quiet_step_draws by auto
qed

lemma make_syzygy_move_quiet:
  assumes "make_syzygy_move cfg ch env s = Inr (r, s')"
  shows "quiet_step s s'"
proof -
  from assms have "s' = s \<or> s' = s\<lparr>draws := Suc (draws s)\<rparr>"
    by (auto simp: make_syzygy_move_def Let_def
        split: if_splits option.splits prod.splits dest: return_choice_frame)
  then show ?thesis using quiet_step_refl quiet_step_draws by auto
qed

lemma make_egtb_move_quiet:
  assumes "make_egtb_move cfg ch env s = Inr (r, s')"
  shows "quiet_step s s'"
  using assms
  by (auto simp: make_egtb_move_def Let_def quiet_step_def reduce_own_time_fields
      log_call_fields split: if_splits option.splits sum.splits)

lemma cycle_inv_after:
  assumes "quiet_step s s0" and "cycle_inv s0 sel s1"
  shows "cycle_inv s sel s1"
  using assms by (cases sel) (auto simp: quiet_step_def cycle_inv_def split: if_splits)

lemma cycle_inv_plain:
  assumes "quiet_step s s1" and "src \<noteq> Gaviota" and "src \<noteq> Syzygy" and "src \<noteq> Engine"
  shows "cycle_inv s (m, src, offer, res, False) s1"
  using assms by (simp add: quiet_step_def cycle_inv_def)

lemma cycle_inv_stop:
  assumes "quiet_step s s1" and "src = Gaviota \<or> src = Syzygy"
  shows "cycle_inv s (m, src, offer, res, False) (stop_pondering s1)"
  using assms by (auto simp: quiet_step_def cycle_inv_def stop_pondering_def log_call_def)

lemma select_engine_inv:
  assumes "select_engine cfg ch env s = Inr (sel, s1)"
  shows "cycle_inv s sel s1"
proof -
  obtain m src offer res eng where sel: "sel = (m, src, offer, res, eng)" by (cases sel) auto
  note f = select_engine_offer [OF assms [unfolded sel]]
  from f(5) obtain info where "make_engine_move cfg env s = Inr ((m, info), s1)" by blast
  then obtain c sc where "s1 = s\<lparr>calls := calls s @ [c],
           draw_scores := deque_append (draw_consecutive_moves (offers cfg)) (draw_scores s) sc,
           resign_scores := deque_append (resign_consecutive_moves (offers cfg)) (resign_scores s) sc\<rparr>"
    using make_engine_move_frame by blast
  with f(1,4) sel show ?thesis by (simp add: cycle_inv_def)
qed

lemma select_egtb_inv:
  assumes "select_egtb cfg ch env s = Inr (sel, s1)"
  shows "cycle_inv s sel s1"
proof (cases "make_egtb_move cfg ch env s")
  case (Inl e)
  with assms show ?thesis by (simp add: select_egtb_def)
next
  case (Inr p)
  then obtain r s0 where p: "make_egtb_move cfg ch env s = Inr (r, s0)" by (cases p) auto
  note q = make_egtb_move_quiet [OF p]
  show ?thesis
  proof (cases r)
    case None
    with assms p have "select_engine cfg ch env s0 = Inr (sel, s1)"
      by (simp add: select_egtb_def)
    then show ?thesis using q cycle_inv_after select_engine_inv by blast
  next
    case (Some t)
    with assms p have "s1 = s0 \<and> (\<exists>m offer res. sel = (m, EGTB, offer, res, False))"
      by (auto simp: select_egtb_def split: prod.splits)
    with q show ?thesis using cycle_inv_plain by auto
  qed
qed

lemma select_syzygy_inv:
  assumes "select_syzygy cfg ch env s = Inr (sel, s1)"
  shows "cycle_inv s sel s1"
proof (cases "make_syzygy_move cfg ch env s")
  case (Inl e)
  with assms show ?thesis by (simp add: select_syzygy_def)
next
  case (Inr p)
  then obtain r s0 where p: "make_syzygy_move cfg ch env s = Inr (r, s0)" by (cases p) auto
  note q = make_syzygy_move_quiet [OF p]
  show ?thesis
  proof (cases r)
    case None
    with assms p have "select_egtb cfg ch env s0 = Inr (sel, s1)"
      by (simp add: select_syzygy_def)
    then show ?thesis using q cycle_inv_after select_egtb_inv by blast
  next
    case (Some t)
    with assms p have "s1 = stop_pondering s0 \<and> (\<exists>m offer res. sel = (m, Syzygy, offer, res, False))"
      by (auto simp: select_syzygy_def split: prod.splits)
    with q show ?thesis using cycle_inv_stop by auto
  qed
qed

lemma select_gaviota_inv:
  assumes "select_gaviota cfg ch env s = Inr (sel, s1)"
  shows "cycle_inv s sel s1"
proof (cases "make_gaviota_move cfg ch env s")
  case (Inl e)
  with assms show ?thesis by (simp add: select_gaviota_def)
next
  case (Inr p)
  then obtain r s0 where p: "make_gaviota_move cfg ch env s = Inr (r, s0)" by (cases p) auto
  note q = make_gaviota_move_quiet [OF p]
  show ?thesis
  proof (cases r)
    case None
    with assms p have "select_syzygy cfg ch env s0 = Inr (sel, s1)"
      by (simp add: select_gaviota_def)
    then show ?thesis using q cycle_inv_after select_syzygy_inv by blast
  next
    case (Some t)
    with assms p have "s1 = stop_pondering s0 \<and> (\<exists>m offer res. sel = (m, Gaviota, offer, res, False))"
      by (auto simp: select_gaviota_def split: prod.splits)
    with q show ?thesis using cycle_inv_stop by auto
  qed
qed

lemma select_chessdb_inv:
  assumes "select_chessdb cfg ch env s = Inr (sel, s1)"
  shows "cycle_inv s sel s1"
proof (cases "make_chessdb_move cfg ch env s")
  case (Inl e)
  with assms show ?thesis by (simp add: select_chessdb_def)
next
  case (Inr p)
  then obtain r s0 where p: "make_chessdb_move cfg ch env s = Inr (r, s0)" by (cases p) auto
  note q = make_chessdb_move_quiet [OF p]
  show ?thesis
  proof (cases r)
    case None
    with assms p have "select_gaviota cfg ch env s0 = Inr (sel, s1)"
      by (simp add: select_chessdb_def)
    then show ?thesis using q cycle_inv_after select_gaviota_inv by blast
  next
    case (Some t)
    with assms p have "s1 = s0 \<and> (\<exists>m offer res. sel = (m, ChessDB, offer, res, False))"
      by (auto simp: select_chessdb_def split: prod.splits)
    with q show ?thesis using cycle_inv_plain by auto
  qed
qed

lemma select_cloud_inv:
  assumes "select_cloud cfg ch env s = Inr (sel, s1)"
  shows "cycle_inv s sel s1"
proof (cases "make_cloud_move cfg ch env s")
  case (Inl e)
  with assms show ?thesis by (simp add: select_cloud_def)
next
  case (Inr p)
  then obtain r s0 where p: "make_cloud_move cfg ch env s = Inr (r, s0)" by (cases p) auto
  note q = make_cloud_move_quiet [OF p]
  show ?thesis
  proof (cases r)
    case None
    with assms p have "select_chessdb cfg ch env s0 = Inr (sel, s1)"
      by (simp add: select_cloud_def)
    then show ?thesis using q cycle_inv_after select_chessdb_inv by blast
  next
    case (Some t)
    with assms p have "s1 = s0 \<and> (\<exists>m offer res. sel = (m, Cloud, offer, res, False))"
      by (auto simp: select_cloud_def split: prod.splits)
    with q show ?thesis using cycle_inv_plain by auto
  qed
qed

lemma select_explorer_inv:
  assumes "select_explorer cfg ch env s = Inr (sel, s1)"
  shows "cycle_inv s sel s1"
proof (cases "make_opening_explorer_move cfg ch env s")
  case (Inl e)
  with assms show ?thesis by (simp add: select_explorer_def)
next
  case (Inr p)
  then obtain r s0 where p: "make_opening_explorer_move cfg ch env s = Inr (r, s0)"
    by (cases p) auto
  note q = make_opening_explorer_move_quiet [OF p]
  show ?thesis
  proof (cases r)
    case None
    with assms p have "select_cloud cfg ch env s0 = Inr (sel, s1)"
      by (simp add: select_explorer_def)
    then show ?thesis using q cycle_inv_after select_cloud_inv by blast
  next
    case (Some t)
    with assms p have "s1 = s0 \<and> (\<exists>m offer res. sel = (m, Explore, offer, res, False))"
      by (auto simp: select_explorer_def split: prod.splits)
    with q show ?thesis using cycle_inv_plain by auto
  qed
qed

lemma select_book_inv:
  assumes "select_book cfg ch env s = Inr (sel, s1)"
  shows "cycle_inv s sel s1"
proof (cases "make_book_move cfg ch env s")
  case (Inl e)
  with assms show ?thesis by (simp add: select_book_def)
next
  case (Inr p)
  then obtain r s0 where p: "make_book_move cfg ch env s = Inr (r, s0)" by (cases p) auto
  note q = make_book_move_quiet [OF p]
  show ?thesis
  proof (cases r)
    case None
    with assms p have "select_explorer cfg ch env s0 = Inr (sel, s1)"
      by (simp add: select_book_def)
    then show ?thesis using q cycle_inv_after select_explorer_inv by blast
  next
    case (Some t)
    with assms p have "s1 = s0 \<and> (\<exists>m offer res. sel = (m, Book, offer, res, False))"
      by (auto simp: select_book_def split: prod.splits)
    with q show ?thesis using cycle_inv_plain by auto
  qed
qed

section \<open>Draw window and move overhead\<close>

text \<open>
  Claim C8, as stated, fails at the two boundaries: at move 35 with a minimum game length
  of 35, and with scores of absolute value 50 at a threshold of 50, a full window offers
  a draw.
\<close>

theorem C8_draw_at_the_boundaries:
  "is_drawish quiet_config (endgame_chess\<lparr>fullmove_number := (\<lambda>b. 35)\<rparr>)
     (endgame_game\<lparr>draw_scores := [Cp 50, Cp (- 50), Cp 0]\<rparr>) \<and>
   \<not> draw_min_game_length (offers quiet_config)
       < fullmove_number (endgame_chess\<lparr>fullmove_number := (\<lambda>b. 35)\<rparr>)
           (board (endgame_game\<lparr>draw_scores := [Cp 50, Cp (- 50), Cp 0]\<rparr>)) \<and>
   \<not> \<bar>score_value 40000 (Cp 50)\<bar> < draw_score (offers quiet_config)"
  by (simp add: is_drawish_def ex_defs)

text \<open>
  Claim C8, amended. The engine branch offers a draw exactly when draw offers are enabled,
  the move number is at least the minimum game length, the draw window holds as many
  scores as its capacity, and every score in it has absolute value at most the threshold.
  The window never holds more than its capacity. With capacity 3 and threshold 50 the
  window 10, -20, 30 offers a draw once the other conditions hold, the window 10, -20, 60
  does not, and a window of fewer than 3 scores never does.
\<close>

theorem C8_draw_offer:
  "(is_drawish cfg ch s \<longleftrightarrow>
      draw_enabled s \<and>
      draw_min_game_length (offers cfg) \<le> fullmove_number ch (board s) \<and>
      draw_consecutive_moves (offers cfg) \<le> length (draw_scores s) \<and>
      (\<forall>sc \<in> set (draw_scores s). \<bar>score_value 40000 sc\<bar> \<le> draw_score (offers cfg))) \<and>
   (select_engine cfg ch env s = Inr ((m, src, offer, res, eng), s1) \<longrightarrow>
      offer = is_drawish cfg ch s1 \<and>
      length (draw_scores s1)
        = min (draw_consecutive_moves (offers cfg)) (Suc (length (draw_scores s)))) \<and>
   (draw_consecutive_moves (offers cfg) = 3 \<and> draw_score (offers cfg) = 50 \<longrightarrow>
      (draw_scores s = [Cp 10, Cp (- 20), Cp 30] \<and> draw_enabled s \<and>
       draw_min_game_length (offers cfg) \<le> fullmove_number ch (board s) \<longrightarrow>
         is_drawish cfg ch s) \<and>
      (draw_scores s = [Cp 10, Cp (- 20), Cp 60] \<longrightarrow> \<not> is_drawish cfg ch s) \<and>
      (length (draw_scores s) < 3 \<longrightarrow> \<not> is_drawish cfg ch s))"
proof (intro conjI)
  show "is_drawish cfg ch s \<longleftrightarrow>
      draw_enabled s \<and>
      draw_min_game_length (offers cfg) \<le> fullmove_number ch (board s) \<and>
      draw_consecutive_moves (offers cfg) \<le> length (draw_scores s) \<and>
      (\<forall>sc \<in> set (draw_scores s). \<bar>score_value 40000 sc\<bar> \<le> draw_score (offers cfg))"
    by (rule is_drawish_iff)
  show "select_engine cfg ch env s = Inr ((m, src, offer, res, eng), s1) \<longrightarrow>
      offer = is_drawish cfg ch s1 \<and>
      length (draw_scores s1)
        = min (draw_consecutive_moves (offers cfg)) (Suc (length (draw_scores s)))"
  proof
    assume a: "select_engine cfg ch env s = Inr ((m, src, offer, res, eng), s1)"
    then obtain info where "make_engine_move cfg env s = Inr ((m, info), s1)"
      using select_engine_offer(5) by blast
    then obtain c sc where "s1 = s\<lparr>calls := calls s @ [c],
           draw_scores := deque_append (draw_consecutive_moves (offers cfg)) (draw_scores s) sc,
           resign_scores := deque_append (resign_consecutive_moves (offers cfg)) (resign_scores s) sc\<rparr>"
      using make_engine_move_frame by blast
    then have "length (draw_scores s1)
        = min (draw_consecutive_moves (offers cfg)) (Suc (length (draw_scores s)))"
      by (simp add: length_deque_append)
    with select_engine_offer(2) [OF a]
    show "offer = is_drawish cfg ch s1 \<and>
      length (draw_scores s1)
        = min (draw_consecutive_moves (offers cfg)) (Suc (length (draw_scores s)))"
      by simp
  qed
  show "draw_consecutive_moves (offers cfg) = 3 \<and> draw_score (offers cfg) = 50 \<longrightarrow>
      (draw_scores s = [Cp 10, Cp (- 20), Cp 30] \<and> draw_enabled s \<and>
       draw_min_game_length (offers cfg) \<le> fullmove_number ch (board s) \<longrightarrow>
         is_drawish cfg ch s) \<and>
      (draw_scores s = [Cp 10, Cp (- 20), Cp 60] \<longrightarrow> \<not> is_drawish cfg ch s) \<and>
      (length (draw_scores s) < 3 \<longrightarrow> \<not> is_drawish cfg ch s)"
    by (simp add: is_drawish_iff)
qed

lemma engine_example:
  "select_engine quiet_config endgame_chess endgame_world
      (endgame_game\<lparr>draw_scores := [Cp (- 20), Cp 30]\<rparr>)
   = Inr ((''g1f1'', Engine, True, False, True),
       endgame_game\<lparr>draw_scores := [Cp (- 20), Cp 30, Cp 0], resign_scores := [Cp 0],
         calls := [Play [''e2e4'', ''e7e5''] (Clock_Limit 290 0 300 0) True]\<rparr>)"
  by (simp add: ex_defs select_engine_def make_engine_move_def log_call_def deque_append_def
      is_drawish_def is_resignable_def Let_def)

theorem C8_draw_offer_witness:
  "is_drawish quiet_config endgame_chess (endgame_game\<lparr>draw_scores := [Cp 10, Cp (- 20), Cp 30]\<rparr>) \<and>
   \<not> is_drawish quiet_config endgame_chess (endgame_game\<lparr>draw_scores := [Cp 10, Cp (- 20), Cp 60]\<rparr>) \<and>
   \<not> is_drawish quiet_config endgame_chess (endgame_game\<lparr>draw_scores := [Cp 10, Cp (- 20)]\<rparr>) \<and>
   select_engine quiet_config endgame_chess endgame_world
      (endgame_game\<lparr>draw_scores := [Cp (- 20), Cp 30]\<rparr>)
   = Inr ((''g1f1'', Engine, True, False, True),
       endgame_game\<lparr>draw_scores := [Cp (- 20), Cp 30, Cp 0], resign_scores := [Cp 0],
         calls := [Play [''e2e4'', ''e7e5''] (Clock_Limit 290 0 300 0) True]\<rparr>) \<and>
   is_drawish quiet_config endgame_chess
     (endgame_game\<lparr>draw_scores := [Cp (- 20), Cp 30, Cp 0], resign_scores := [Cp 0],
         calls := [Play [''e2e4'', ''e7e5''] (Clock_Limit 290 0 300 0) True]\<rparr>)"
proof -
  have c: "draw_consecutive_moves (offers quiet_config) = 3 \<and> draw_score (offers quiet_config) = 50"
    by (simp add: ex_defs)
  have a: "is_drawish quiet_config endgame_chess
      (endgame_game\<lparr>draw_scores := [Cp 10, Cp (- 20), Cp 30]\<rparr>)"
    using C8_draw_offer [where cfg = quiet_config and ch = endgame_chess
        and s = "endgame_game\<lparr>draw_scores := [Cp 10, Cp (- 20), Cp 30]\<rparr>"] c
    by (simp add: ex_defs)
  have b: "\<not> is_drawish quiet_config endgame_chess
      (endgame_game\<lparr>draw_scores := [Cp 10, Cp (- 20), Cp 60]\<rparr>)"
    using C8_draw_offer [where cfg = quiet_config and ch = endgame_chess
        and s = "endgame_game\<lparr>draw_scores := [Cp 10, Cp (- 20), Cp 60]\<rparr>"] c
    by (simp add: ex_defs)
  have d: "\<not> is_drawish quiet_config endgame_chess
      (endgame_game\<lparr>draw_scores := [Cp 10, Cp (- 20)]\<rparr>)"
    using C8_draw_offer [where cfg = quiet_config and ch = endgame_chess
        and s = "endgame_game\<lparr>draw_scores := [Cp 10, Cp (- 20)]\<rparr>"] c
    by (simp add: ex_defs)
  have e: "True = is_drawish quiet_config endgame_chess
     (endgame_game\<lparr>draw_scores := [Cp (- 20), Cp 30, Cp 0], resign_scores := [Cp 0],
         calls := [Play [''e2e4'', ''e7e5''] (Clock_Limit 290 0 300 0) True]\<rparr>)"
    using C8_draw_offer [where cfg = quiet_config and ch = endgame_chess
        and env = endgame_world and s = "endgame_game\<lparr>draw_scores := [Cp (- 20), Cp 30]\<rparr>",
        THEN conjunct2, THEN conjunct1, rule_format, OF engine_example]
    by (rule conjunct1)
  from a b d e engine_example show ?thesis by simp
qed







section \<open>The decision cycle\<close>

lemma make_move_Inr:
  assumes "make_move cfg ch env s = Inr (r, s')"
  obtains m src offer res eng s1 where
    "select_book cfg ch env s = Inr ((m, src, offer, res, eng), s1)"
    "r = (m, offer \<and> draw_enabled s1, res \<and> resign_enabled s1)"
    "s' = (if eng then s1\<lparr>last_message := Some src, board := board s1 @ [m]\<rparr>
           else start_pondering (s1\<lparr>last_message := Some src, board := board s1 @ [m]\<rparr>))"
proof (cases "select_book cfg ch env s")
  case (Inl e)
  with assms show ?thesis by (simp add: make_move_def)
next
  case (Inr p)
  then obtain m src offer res eng s1 where
    p: "select_book cfg ch env s = Inr ((m, src, offer, res, eng), s1)"
    by (cases p) auto
  with assms that [OF p] show ?thesis
    by (auto simp: make_move_def Let_def start_pondering_def log_call_def split: if_splits)
qed

lemma make_move_counters:
  assumes "make_move cfg ch env s = Inr (r, s')"
  shows "10 \<le> out_of_book_counter s \<Longrightarrow> out_of_book_counter s' = out_of_book_counter s"
    and "10 \<le> out_of_opening_explorer_counter s \<Longrightarrow>
      out_of_opening_explorer_counter s' = out_of_opening_explorer_counter s"
    and "10 \<le> out_of_cloud_counter s \<Longrightarrow> out_of_cloud_counter s' = out_of_cloud_counter s"
    and "10 \<le> out_of_chessdb_counter s \<Longrightarrow> out_of_chessdb_counter s' = out_of_chessdb_counter s"
proof -
  from assms obtain m src offer res eng s1 where
    sel: "select_book cfg ch env s = Inr ((m, src, offer, res, eng), s1)"
    and s': "s' = (if eng then s1\<lparr>last_message := Some src, board := board s1 @ [m]\<rparr>
           else start_pondering (s1\<lparr>last_message := Some src, board := board s1 @ [m]\<rparr>))"
    by (rule make_move_Inr)
  have c: "out_of_book_counter s' = out_of_book_counter s1"
    "out_of_opening_explorer_counter s' = out_of_opening_explorer_counter s1"
    "out_of_cloud_counter s' = out_of_cloud_counter s1"
    "out_of_chessdb_counter s' = out_of_chessdb_counter s1"
    using s' by (simp_all add: start_pondering_def log_call_def)
  note i = select_book_inv [OF sel, unfolded cycle_inv_def prod.case]
  show "10 \<le> out_of_book_counter s \<Longrightarrow> out_of_book_counter s' = out_of_book_counter s"
    using i c by simp
  show "10 \<le> out_of_opening_explorer_counter s \<Longrightarrow>
      out_of_opening_explorer_counter s' = out_of_opening_explorer_counter s"
    using i c by simp
  show "10 \<le> out_of_cloud_counter s \<Longrightarrow> out_of_cloud_counter s' = out_of_cloud_counter s"
    using i c by simp
  show "10 \<le> out_of_chessdb_counter s \<Longrightarrow> out_of_chessdb_counter s' = out_of_chessdb_counter s"
    using i c by simp
qed

lemma update_counters:
  assumes "update ev s = (changed, s')"
  shows "out_of_book_counter s' = out_of_book_counter s"
    and "out_of_opening_explorer_counter s' = out_of_opening_explorer_counter s"
    and "out_of_cloud_counter s' = out_of_cloud_counter s"
    and "out_of_chessdb_counter s' = out_of_chessdb_counter s"
  using assms by (auto simp: update_def Let_def split: if_splits)

lemma later_book:
  "later cfg ch s s' \<Longrightarrow> 10 \<le> out_of_book_counter s \<Longrightarrow>
   out_of_book_counter s' = out_of_book_counter s"
proof (induction rule: later.induct)
  case later_refl
  show ?case by simp
next
  case (later_move s s1 env r s2)
  then show ?case using make_move_counters(1) [of cfg ch env s1 r s2] by simp
next
  case (later_update s s1 ev changed s2)
  then show ?case using update_counters(1) [of ev s1 changed s2] by simp
qed

lemma later_explorer:
  "later cfg ch s s' \<Longrightarrow> 10 \<le> out_of_opening_explorer_counter s \<Longrightarrow>
   out_of_opening_explorer_counter s' = out_of_opening_explorer_counter s"
proof (induction rule: later.induct)
  case later_refl
  show ?case by simp
next
  case (later_move s s1 env r s2)
  then show ?case using make_move_counters(2) [of cfg ch env s1 r s2] by simp
next
  case (later_update s s1 ev changed s2)
  then show ?case using update_counters(2) [of ev s1 changed s2] by simp
qed

lemma later_cloud:
  "later cfg ch s s' \<Longrightarrow> 10 \<le> out_of_cloud_counter s \<Longrightarrow>
   out_of_cloud_counter s' = out_of_cloud_counter s"
proof (induction rule: later.induct)
  case later_refl
  show ?case by simp
next
  case (later_move s s1 env r s2)
  then show ?case using make_move_counters(3) [of cfg ch env s1 r s2] by simp
next
  case (later_update s s1 ev changed s2)
  then show ?case using update_counters(3) [of ev s1 changed s2] by simp
qed

lemma later_chessdb:
  "later cfg ch s s' \<Longrightarrow> 10 \<le> out_of_chessdb_counter s \<Longrightarrow>
   out_of_chessdb_counter s' = out_of_chessdb_counter s"
proof (induction rule: later.induct)
  case later_refl
  show ?case by simp
next
  case (later_move s s1 env r s2)
  then show ?case using make_move_counters(4) [of cfg ch env s1 r s2] by simp
next
  case (later_update s s1 ev changed s2)
  then show ?case using update_counters(4) [of ev s1 changed s2] by simp
qed

lemma weary_sources:
  "make_book_move weary_config endgame_chess endgame_world weary_game = Inr (None, weary_game)"
  "make_opening_explorer_move weary_config endgame_chess endgame_world weary_game
     = Inr (None, weary_game)"
  "make_cloud_move weary_config endgame_chess endgame_world weary_game = Inr (None, weary_game)"
  "make_chessdb_move weary_config endgame_chess endgame_world weary_game = Inr (None, weary_game)"
  "make_gaviota_move weary_config endgame_chess endgame_world weary_game = Inr (None, weary_game)"
  "make_syzygy_move weary_config endgame_chess endgame_world weary_game = Inr (None, weary_game)"
  "make_egtb_move weary_config endgame_chess endgame_world weary_game = Inr (None, weary_game)"
  by (simp_all add: make_book_move_disabled make_opening_explorer_move_disabled
      make_cloud_move_disabled make_chessdb_move_disabled weary_game_def
      make_gaviota_move_def make_syzygy_move_def make_egtb_move_def weary_config_def
      quiet_config_def)

lemma weary_engine:
  "make_engine_move weary_config endgame_world weary_game
   = Inr ((''g1f1'', Some (Cp 0)),
       weary_game\<lparr>draw_scores := [Cp 0], resign_scores := [Cp 0],
         calls := [Play [''e2e4'', ''e7e5''] (Clock_Limit 290 0 300 0) True]\<rparr>)"
  by (simp add: ex_defs make_engine_move_def log_call_def deque_append_def Let_def)

lemma weary_move:
  "make_move weary_config endgame_chess endgame_world weary_game
     = Inr ((''g1f1'', False, False), weary_game_after)"
proof -
  have "select_book weary_config endgame_chess endgame_world weary_game
    = Inr ((''g1f1'', Engine, False, False, True),
       weary_game\<lparr>draw_scores := [Cp 0], resign_scores := [Cp 0],
         calls := [Play [''e2e4'', ''e7e5''] (Clock_Limit 290 0 300 0) True]\<rparr>)"
    by (simp add: select_book_def select_explorer_def select_cloud_def select_chessdb_def
        select_gaviota_def select_syzygy_def select_egtb_def select_engine_def
        weary_sources weary_engine)
       (simp add: ex_defs is_drawish_def is_resignable_def)
  then show ?thesis
    by (simp add: make_move_def Let_def) (simp add: ex_defs)
qed

text \<open>
  Claim C7. Once the miss counter of the book, the opening explorer, the cloud or the
  community database has reached 10, it keeps its value through every later decision
  cycle and server event of the game, and in each of them the source returns no move
  and leaves the game as it is: no lookup or query is made.
\<close>

theorem C7_ten_misses_disable_for_good:
  "(later cfg ch s s' \<and> 10 \<le> out_of_book_counter s \<longrightarrow>
      out_of_book_counter s' = out_of_book_counter s \<and>
      make_book_move cfg ch env s' = Inr (None, s')) \<and>
   (later cfg ch s s' \<and> 10 \<le> out_of_opening_explorer_counter s \<longrightarrow>
      out_of_opening_explorer_counter s' = out_of_opening_explorer_counter s \<and>
      make_opening_explorer_move cfg ch env s' = Inr (None, s')) \<and>
   (later cfg ch s s' \<and> 10 \<le> out_of_cloud_counter s \<longrightarrow>
      out_of_cloud_counter s' = out_of_cloud_counter s \<and>
      make_cloud_move cfg ch env s' = Inr (None, s')) \<and>
   (later cfg ch s s' \<and> 10 \<le> out_of_chessdb_counter s \<longrightarrow>
      out_of_chessdb_counter s' = out_of_chessdb_counter s \<and>
      make_chessdb_move cfg ch env s' = Inr (None, s'))"
proof (intro conjI impI)
  assume a: "later cfg ch s s' \<and> 10 \<le> out_of_book_counter s"
  then show e: "out_of_book_counter s' = out_of_book_counter s" using later_book by blast
  with a show "make_book_move cfg ch env s' = Inr (None, s')"
    by (simp add: make_book_move_disabled)
next
  assume a: "later cfg ch s s' \<and> 10 \<le> out_of_opening_explorer_counter s"
  then show e: "out_of_opening_explorer_counter s' = out_of_opening_explorer_counter s"
    using later_explorer by blast
  with a show "make_opening_explorer_move cfg ch env s' = Inr (None, s')"
    by (simp add: make_opening_explorer_move_disabled)
next
  assume a: "later cfg ch s s' \<and> 10 \<le> out_of_cloud_counter s"
  then show e: "out_of_cloud_counter s' = out_of_cloud_counter s" using later_cloud by blast
  with a show "make_cloud_move cfg ch env s' = Inr (None, s')"
    by (simp add: make_cloud_move_disabled)
next
  assume a: "later cfg ch s s' \<and> 10 \<le> out_of_chessdb_counter s"
  then show e: "out_of_chessdb_counter s' = out_of_chessdb_counter s"
    using later_chessdb by blast
  with a show "make_chessdb_move cfg ch env s' = Inr (None, s')"
    by (simp add: make_chessdb_move_disabled)
qed

theorem C7_ten_misses_disable_for_good_witness:
  "later weary_config endgame_chess weary_game weary_game_after \<and>
   out_of_book_counter weary_game = 10 \<and>
   out_of_opening_explorer_counter weary_game = 10 \<and>
   out_of_cloud_counter weary_game = 10 \<and>
   out_of_chessdb_counter weary_game = 10 \<and>
   make_book_move weary_config endgame_chess endgame_world weary_game_after
     = Inr (None, weary_game_after) \<and>
   make_opening_explorer_move weary_config endgame_chess endgame_world weary_game_after
     = Inr (None, weary_game_after) \<and>
   make_cloud_move weary_config endgame_chess endgame_world weary_game_after
     = Inr (None, weary_game_after) \<and>
   make_chessdb_move weary_config endgame_chess endgame_world weary_game_after
     = Inr (None, weary_game_after)"
proof -
  have l: "later weary_config endgame_chess weary_game weary_game_after"
    by (rule later_move [OF later_refl weary_move])
  have c: "out_of_book_counter weary_game = 10" "out_of_opening_explorer_counter weary_game = 10"
    "out_of_cloud_counter weary_game = 10" "out_of_chessdb_counter weary_game = 10"
    by (simp_all add: weary_game_def)
  from C7_ten_misses_disable_for_good [where cfg = weary_config and ch = endgame_chess
      and env = endgame_world and s = weary_game and s' = weary_game_after] l c
  show ?thesis by simp
qed

section \<open>The repetition guard inside the sources\<close>

text \<open>
  The candidate of a source is the move it returns when the guard never fires, that is,
  under a chess library whose repetition test always answers no.
\<close>

lemma unguarded_fields:
  "too_deep (ch\<lparr>is_repetition := f\<rparr>) s d = too_deep ch s d"
  "get_opening_explorer_top_move cfg (ch\<lparr>is_repetition := f\<rparr>) s ms
     = get_opening_explorer_top_move cfg ch s ms"
  "is_repetition_after (ch\<lparr>is_repetition := f\<rparr>) s m = f (board s @ [m]) 2"
  by (simp_all add: too_deep_def get_opening_explorer_top_move_def is_repetition_after_def
      cong: option.case_cong sum.case_cong)

text \<open>What a returned move tells about the run of a remote source.\<close>

lemma make_opening_explorer_move_Some:
  assumes "make_opening_explorer_move cfg ch env s = Inr (Some (m, p, w, d, l), s1)"
    and "c = opening_explorer cfg"
    and "u = (if oe_anti c then (if turn ch (board s) then black_name s else white_name s)
              else (if turn ch (board s) then white_name s else black_name s))"
    and "col = (if oe_anti c then (if turn ch (board s) then ''black'' else ''white'')
                else (if turn ch (board s) then ''white'' else ''black''))"
    and "q = log_call (Explorer_Query u (board s) col (oe_timeout c)) s"
  shows "\<exists>response tm.
      oe_enabled c \<and> \<not> 10 \<le> out_of_opening_explorer_counter s \<and>
      \<not> too_deep ch s (oe_max_depth c) \<and> has_time s (oe_min_time c) \<and>
      (uci_variant ch = ''chess'' \<or> oe_use_for_variants c) \<and>
      get_opening_explorer env u (board s) col (oe_timeout c) = Some response \<and>
      max (oe_min_games c) 1 \<le> er_white response + er_draws response + er_black response \<and>
      get_opening_explorer_top_move cfg ch q (er_moves response) = Inr tm \<and>
      \<not> (oe_only_with_wins c \<and> em_wins tm = 0) \<and>
      m = em_uci tm \<and> s1 = q\<lparr>out_of_opening_explorer_counter := 0\<rparr>"
  using assms
  by (auto simp: make_opening_explorer_move_def Let_def explorer_miss_def
      split: if_splits option.splits sum.splits)

lemma make_opening_explorer_move_rejects:
  assumes "c = opening_explorer cfg"
    and "u = (if oe_anti c then (if turn ch (board s) then black_name s else white_name s)
              else (if turn ch (board s) then white_name s else black_name s))"
    and "col = (if oe_anti c then (if turn ch (board s) then ''black'' else ''white'')
                else (if turn ch (board s) then ''white'' else ''black''))"
    and "q = log_call (Explorer_Query u (board s) col (oe_timeout c)) s"
    and "oe_enabled c" and "\<not> 10 \<le> out_of_opening_explorer_counter s"
    and "\<not> too_deep ch s (oe_max_depth c)" and "has_time s (oe_min_time c)"
    and "uci_variant ch = ''chess'' \<or> oe_use_for_variants c"
    and "get_opening_explorer env u (board s) col (oe_timeout c) = Some response"
    and "max (oe_min_games c) 1 \<le> er_white response + er_draws response + er_black response"
    and "get_opening_explorer_top_move cfg ch q (er_moves response) = Inr tm"
    and "\<not> (oe_only_with_wins c \<and> em_wins tm = 0)"
    and "is_repetition ch (board s @ [em_uci tm]) 2"
  shows "make_opening_explorer_move cfg ch env s
     = Inr (None, q\<lparr>out_of_opening_explorer_counter := 1\<rparr>)"
proof -
  have b: "board q = board s" using assms(4) by (simp add: log_call_def)
  have g: "\<not> (10 \<le> out_of_opening_explorer_counter s \<or>
      too_deep ch s (oe_max_depth (opening_explorer cfg)) \<or>
      \<not> has_time s (oe_min_time (opening_explorer cfg)) \<or>
      uci_variant ch \<noteq> ''chess'' \<and> \<not> oe_use_for_variants (opening_explorer cfg))"
    using assms(1,6-9) by auto
  show ?thesis
    unfolding make_opening_explorer_move_def Let_def
    using assms(5,10-14) g b
    unfolding assms(4) assms(3) assms(2) assms(1)
    by (auto simp: explorer_miss_def is_repetition_after_def log_call_def)
qed

lemma make_opening_explorer_move_guard:
  assumes "make_opening_explorer_move cfg (ch\<lparr>is_repetition := (\<lambda>b n. False)\<rparr>) env s
             = Inr (Some (m, p, w, d, l), s1)"
    and "is_repetition ch (board s @ [m]) 2"
  shows "make_opening_explorer_move cfg ch env s
     = Inr (None, s1\<lparr>out_of_opening_explorer_counter := 1\<rparr>)"
proof -
  define c where "c = opening_explorer cfg"
  define u where "u = (if oe_anti c then (if turn ch (board s) then black_name s else white_name s)
              else (if turn ch (board s) then white_name s else black_name s))"
  define col where "col = (if oe_anti c then (if turn ch (board s) then ''black'' else ''white'')
                else (if turn ch (board s) then ''white'' else ''black''))"
  define q where "q = log_call (Explorer_Query u (board s) col (oe_timeout c)) s"
  have u0: "u = (if oe_anti c
        then (if turn (ch\<lparr>is_repetition := (\<lambda>b n. False)\<rparr>) (board s)
              then black_name s else white_name s)
        else (if turn (ch\<lparr>is_repetition := (\<lambda>b n. False)\<rparr>) (board s)
              then white_name s else black_name s))"
    by (simp add: u_def cong: if_cong)
  have col0: "col = (if oe_anti c
        then (if turn (ch\<lparr>is_repetition := (\<lambda>b n. False)\<rparr>) (board s)
              then ''black'' else ''white'')
        else (if turn (ch\<lparr>is_repetition := (\<lambda>b n. False)\<rparr>) (board s)
              then ''white'' else ''black''))"
    by (simp add: col_def cong: if_cong)
  from make_opening_explorer_move_Some [OF assms(1) c_def u0 col0 q_def]
  obtain response tm where f:
      "oe_enabled c" "\<not> 10 \<le> out_of_opening_explorer_counter s"
      "\<not> too_deep ch s (oe_max_depth c)" "has_time s (oe_min_time c)"
      "uci_variant ch = ''chess'' \<or> oe_use_for_variants c"
      "get_opening_explorer env u (board s) col (oe_timeout c) = Some response"
      "max (oe_min_games c) 1 \<le> er_white response + er_draws response + er_black response"
      "get_opening_explorer_top_move cfg ch q (er_moves response) = Inr tm"
      "\<not> (oe_only_with_wins c \<and> em_wins tm = 0)"
      "m = em_uci tm" "s1 = q\<lparr>out_of_opening_explorer_counter := 0\<rparr>"
    by (auto simp: unguarded_fields)
  have "make_opening_explorer_move cfg ch env s
     = Inr (None, q\<lparr>out_of_opening_explorer_counter := 1\<rparr>)"
    by (rule make_opening_explorer_move_rejects [OF c_def u_def col_def q_def f(1-9)])
       (use assms(2) f(10) in simp)
  with f(11) show ?thesis by simp
qed

lemma make_cloud_move_guard:
  assumes "make_cloud_move cfg (ch\<lparr>is_repetition := (\<lambda>b n. False)\<rparr>) env s
             = Inr (Some (m, cp, dp), s1)"
    and "is_repetition ch (board s @ [m]) 2"
  shows "make_cloud_move cfg ch env s = Inr (None, s1\<lparr>out_of_cloud_counter := 1\<rparr>)"
  using assms
  by (auto simp: make_cloud_move_def Let_def unguarded_fields cloud_miss_def
      is_repetition_after_def log_call_def split: if_splits option.splits sum.splits)

lemma make_chessdb_move_Some:
  assumes "make_chessdb_move cfg ch env s = Inr (Some m, s1)"
    and "c = chessdb cfg"
    and "a = (if cdb_selection c = ''good'' then ''querybest''
              else if cdb_selection c = ''all'' then ''query'' else ''querypv'')"
    and "q = log_call (ChessDB_Query (board s) a (cdb_timeout c)) s"
  shows "\<exists>response.
      cdb_enabled c \<and> \<not> 10 \<le> out_of_chessdb_counter s \<and>
      \<not> too_deep ch s (cdb_max_depth c) \<and> has_time s (cdb_min_time c) \<and>
      uci_variant ch = ''chess'' \<and> \<not> occupied_count ch (board s) \<le> 7 \<and>
      get_chessdb_eval env (board s) a (cdb_timeout c) = Some response \<and>
      cd_status response = ''ok'' \<and>
      cdb_min_eval_depth c \<le> (case cd_depth response of None \<Rightarrow> 50 | Some d \<Rightarrow> d) \<and>
      (case cd_move response of Some x \<Rightarrow> Inr x | None \<Rightarrow> first_of (cd_pv response)) = Inr m \<and>
      s1 = q\<lparr>out_of_chessdb_counter := 0\<rparr>"
  using assms
  by (auto simp: make_chessdb_move_def Let_def chessdb_miss_def
      split: if_splits option.splits sum.splits)

lemma make_chessdb_move_rejects:
  assumes "c = chessdb cfg"
    and "a = (if cdb_selection c = ''good'' then ''querybest''
              else if cdb_selection c = ''all'' then ''query'' else ''querypv'')"
    and "q = log_call (ChessDB_Query (board s) a (cdb_timeout c)) s"
    and "cdb_enabled c" and "\<not> 10 \<le> out_of_chessdb_counter s"
    and "\<not> too_deep ch s (cdb_max_depth c)" and "has_time s (cdb_min_time c)"
    and "uci_variant ch = ''chess''" and "\<not> occupied_count ch (board s) \<le> 7"
    and "get_chessdb_eval env (board s) a (cdb_timeout c) = Some response"
    and "cd_status response = ''ok''"
    and "cdb_min_eval_depth c \<le> (case cd_depth response of None \<Rightarrow> 50 | Some d \<Rightarrow> d)"
    and "(case cd_move response of Some x \<Rightarrow> Inr x | None \<Rightarrow> first_of (cd_pv response)) = Inr m"
    and "is_repetition ch (board s @ [m]) 2"
  shows "make_chessdb_move cfg ch env s = Inr (None, q\<lparr>out_of_chessdb_counter := 1\<rparr>)"
proof -
  have g: "\<not> (10 \<le> out_of_chessdb_counter s \<or> too_deep ch s (cdb_max_depth (chessdb cfg)) \<or>
      \<not> has_time s (cdb_min_time (chessdb cfg)) \<or> uci_variant ch \<noteq> ''chess'' \<or>
      occupied_count ch (board s) \<le> 7)"
    using assms(5-9) unfolding assms(1) by auto
  have r: "get_chessdb_eval env (board s)
      (if cdb_selection (chessdb cfg) = ''good'' then ''querybest''
       else if cdb_selection (chessdb cfg) = ''all'' then ''query'' else ''querypv'')
      (cdb_timeout (chessdb cfg)) = Some response"
    using assms(10) unfolding assms(2) unfolding assms(1) .
  have ok: "cd_status response = ''ok'' \<and>
      cdb_min_eval_depth (chessdb cfg) \<le> (case cd_depth response of None \<Rightarrow> 50 | Some d \<Rightarrow> d)"
    using assms(11,12) unfolding assms(1) by simp
  have en: "cdb_enabled (chessdb cfg)" using assms(4) unfolding assms(1) .
  show ?thesis
    unfolding make_chessdb_move_def Let_def
    by (simp only: en g r ok assms(13) if_True if_False option.case sum.case simp_thms)
       (use assms(14) in \<open>unfold assms(3) assms(2) assms(1),
         simp add: chessdb_miss_def is_repetition_after_def log_call_def\<close>)
qed

lemma make_chessdb_move_guard:
  assumes "make_chessdb_move cfg (ch\<lparr>is_repetition := (\<lambda>b n. False)\<rparr>) env s
             = Inr (Some m, s1)"
    and "is_repetition ch (board s @ [m]) 2"
  shows "make_chessdb_move cfg ch env s = Inr (None, s1\<lparr>out_of_chessdb_counter := 1\<rparr>)"
proof -
  define c where "c = chessdb cfg"
  define a where "a = (if cdb_selection c = ''good'' then ''querybest''
              else if cdb_selection c = ''all'' then ''query'' else ''querypv'')"
  define q where "q = log_call (ChessDB_Query (board s) a (cdb_timeout c)) s"
  from make_chessdb_move_Some [OF assms(1) c_def a_def q_def]
  obtain response where f:
      "cdb_enabled c" "\<not> 10 \<le> out_of_chessdb_counter s"
      "\<not> too_deep ch s (cdb_max_depth c)" "has_time s (cdb_min_time c)"
      "uci_variant ch = ''chess''" "\<not> occupied_count ch (board s) \<le> 7"
      "get_chessdb_eval env (board s) a (cdb_timeout c) = Some response"
      "cd_status response = ''ok''"
      "cdb_min_eval_depth c \<le> (case cd_depth response of None \<Rightarrow> 50 | Some d \<Rightarrow> d)"
      "(case cd_move response of Some x \<Rightarrow> Inr x | None \<Rightarrow> first_of (cd_pv response)) = Inr m"
      "s1 = q\<lparr>out_of_chessdb_counter := 0\<rparr>"
    by (auto simp: unguarded_fields)
  have "make_chessdb_move cfg ch env s = Inr (None, q\<lparr>out_of_chessdb_counter := 1\<rparr>)"
    by (rule make_chessdb_move_rejects [OF c_def a_def q_def f(1-10) assms(2)])
  with f(11) show ?thesis by simp
qed

lemma gaviota_scan_unguarded:
  "gaviota_scan (ch\<lparr>is_repetition := f\<rparr>) env b ms acc = gaviota_scan ch env b ms acc"
  by (induction ms arbitrary: acc)
     (simp_all add: gaviota_probe_def cong: option.case_cong)

lemma syzygy_scan_unguarded:
  "syzygy_scan (ch\<lparr>is_repetition := f\<rparr>) env b ms acc = syzygy_scan ch env b ms acc"
  by (induction ms arbitrary: acc)
     (simp_all add: syzygy_probe_def cong: option.case_cong)

lemma make_gaviota_move_unguarded:
  "make_gaviota_move cfg (ch\<lparr>is_repetition := f\<rparr>) env s = make_gaviota_move cfg ch env s"
  by (simp add: make_gaviota_move_def gaviota_scan_unguarded cong: option.case_cong)

lemma make_syzygy_move_unguarded:
  "make_syzygy_move cfg (ch\<lparr>is_repetition := f\<rparr>) env s = make_syzygy_move cfg ch env s"
  by (simp add: make_syzygy_move_def syzygy_scan_unguarded cong: option.case_cong)

lemma make_egtb_move_unguarded:
  "make_egtb_move cfg (ch\<lparr>is_repetition := f\<rparr>) env s = make_egtb_move cfg ch env s"
  by (simp add: make_egtb_move_def)

lemma book_loop_passes_on:
  assumes "reader (board s) \<noteq> []"
    and "select_entry cfg env (reader (board s)) (log_call (Book_Lookup i (board s)) s)
           = Inr (en, s2)"
    and "is_repetition ch (board s @ [entry_move en]) 2"
  shows "book_loop cfg ch env i (reader # rest) s = book_loop cfg ch env (Suc i) rest s2"
proof -
  from select_entry_fields [OF assms(2)] have "board s2 = board s" by (simp add: log_call_def)
  with assms show ?thesis by (simp add: Let_def is_repetition_after_def)
qed

lemma book_loop_returns:
  assumes "reader (board s) \<noteq> []"
    and "select_entry cfg env (reader (board s)) (log_call (Book_Lookup i (board s)) s)
           = Inr (en, s2)"
    and "\<not> is_repetition ch (board s @ [entry_move en]) 2"
    and "sum_list (map entry_weight (reader (board s))) \<noteq> 0"
  shows "\<exists>w l. book_loop cfg ch env i (reader # rest) s
      = Inr (Some (entry_move en, w, l), s2\<lparr>out_of_book_counter := 0\<rparr>)"
proof -
  from select_entry_fields [OF assms(2)] have "board s2 = board s" by (simp add: log_call_def)
  with assms show ?thesis by (simp add: Let_def is_repetition_after_def)
qed

lemma single_book_rejects:
  assumes "ob_enabled (opening_books cfg)" and "out_of_book_counter s < 10"
    and "\<not> too_deep ch s (ob_max_depth (opening_books cfg))"
    and "book_readers env = [reader]"
    and "reader (board s) \<noteq> []"
    and "select_entry cfg env (reader (board s)) (log_call (Book_Lookup 0 (board s)) s)
           = Inr (en, s2)"
    and "is_repetition ch (board s @ [entry_move en]) 2"
  shows "make_book_move cfg ch env s
     = Inr (None, s2\<lparr>out_of_book_counter := out_of_book_counter s2 + 1\<rparr>)"
proof -
  have "make_book_move cfg ch env s = book_loop cfg ch env 0 [reader] s"
    using assms(1-4) by (simp add: make_book_move_def Let_def)
  also have "\<dots> = book_loop cfg ch env (Suc 0) [] s2"
    using assms(5-7) by (rule book_loop_passes_on)
  finally show ?thesis by simp
qed

section \<open>Repetition guard\<close>

lemma repeating_egtb_example:
  "make_egtb_move egtb_config repeating_chess egtb_world endgame_game
     = Inr (Some (''g1f1'', ''draw'', 0, None, True, False),
         endgame_game\<lparr>calls := [EGTB_Query [''e2e4'', ''e7e5''] ''standard'' 3]\<rparr>)"
  by (simp add: ex_defs make_egtb_move_def has_time_def log_call_def first_of_def Let_def)

lemma quiet_sources:
  "make_book_move egtb_config ch env s = Inr (None, s)"
  "make_opening_explorer_move egtb_config ch env s = Inr (None, s)"
  "make_cloud_move egtb_config ch env s = Inr (None, s)"
  "make_chessdb_move egtb_config ch env s = Inr (None, s)"
  "make_gaviota_move egtb_config ch env s = Inr (None, s)"
  "make_syzygy_move egtb_config ch env s = Inr (None, s)"
  by (simp_all add: make_book_move_def make_opening_explorer_move_def make_cloud_move_def
      make_chessdb_move_def make_gaviota_move_def make_syzygy_move_def egtb_config_def
      quiet_config_def)

lemma repeating_move_example:
  "make_move egtb_config repeating_chess egtb_world endgame_game
     = Inr ((''g1f1'', True, False),
         endgame_game\<lparr>board := [''e2e4'', ''e7e5'', ''g1f1''], last_message := Some EGTB,
           calls := [EGTB_Query [''e2e4'', ''e7e5''] ''standard'' 3,
                     Analysis [''e2e4'', ''e7e5'', ''g1f1''] None]\<rparr>)"
proof -
  have "select_book egtb_config repeating_chess egtb_world endgame_game
    = Inr ((''g1f1'', EGTB, True, False, False),
        endgame_game\<lparr>calls := [EGTB_Query [''e2e4'', ''e7e5''] ''standard'' 3]\<rparr>)"
    by (simp add: select_book_def select_explorer_def select_cloud_def select_chessdb_def
        select_gaviota_def select_syzygy_def select_egtb_def quiet_sources
        repeating_egtb_example)
  then show ?thesis
    by (simp add: make_move_def Let_def start_pondering_def log_call_def)
       (simp add: ex_defs)
qed

text \<open>
  Claim C4, as stated, fails for the tablebase sources: the online tablebase returns a
  move that repeats a position, and the decision cycle plays it.
\<close>

theorem C4_tablebase_move_may_repeat:
  "is_repetition repeating_chess (board endgame_game @ [''g1f1'']) 2 \<and>
   make_egtb_move egtb_config repeating_chess egtb_world endgame_game
     = Inr (Some (''g1f1'', ''draw'', 0, None, True, False),
         endgame_game\<lparr>calls := [EGTB_Query [''e2e4'', ''e7e5''] ''standard'' 3]\<rparr>) \<and>
   make_move egtb_config repeating_chess egtb_world endgame_game
     = Inr ((''g1f1'', True, False),
         endgame_game\<lparr>board := [''e2e4'', ''e7e5'', ''g1f1''], last_message := Some EGTB,
           calls := [EGTB_Query [''e2e4'', ''e7e5''] ''standard'' 3,
                     Analysis [''e2e4'', ''e7e5'', ''g1f1''] None]\<rparr>)"
proof -
  have "is_repetition repeating_chess (board endgame_game @ [''g1f1'']) 2"
    by (simp add: ex_defs)
  with repeating_egtb_example repeating_move_example show ?thesis by simp
qed

lemma unguarded_opening:
  "repeating_opening\<lparr>is_repetition := (\<lambda>b n. False)\<rparr> = opening_chess"
  by (simp add: ex_defs)

lemma book_example:
  "make_book_move weary_config opening_chess online_world endgame_game
     = Inr (Some (''g1f1'', 200 / 3, 0),
         endgame_game\<lparr>calls := [Book_Lookup 0 [''e2e4'', ''e7e5'']]\<rparr>)"
  by (simp add: ex_defs make_book_move_def too_deep_def log_call_def select_entry_def
      max_by_def is_repetition_after_def Let_def)

lemma book_second_reader_example:
  "make_book_move weary_config repeating_opening online_world endgame_game
     = Inr (Some (''h6h7'', 100, 0),
         endgame_game\<lparr>calls := [Book_Lookup 0 [''e2e4'', ''e7e5''],
                                 Book_Lookup 1 [''e2e4'', ''e7e5'']]\<rparr>)"
  by (simp add: ex_defs make_book_move_def too_deep_def log_call_def select_entry_def
      max_by_def is_repetition_after_def Let_def)

lemma first_book_selection:
  "select_entry weary_config (online_world\<lparr>book_readers := [first_book]\<rparr>)
      (first_book (board endgame_game))
      (log_call (Book_Lookup 0 (board endgame_game)) endgame_game)
   = Inr (\<lparr>entry_move = ''g1f1'', entry_weight = 10, entry_learn = 0\<rparr>,
       endgame_game\<lparr>calls := [Book_Lookup 0 [''e2e4'', ''e7e5'']]\<rparr>)"
  by (simp add: ex_defs log_call_def select_entry_def max_by_def)

lemma explorer_example:
  "make_opening_explorer_move weary_config opening_chess online_world endgame_game
     = Inr (Some (''g1f1'', 2400, 6, 2, 1),
         endgame_game\<lparr>calls := [Explorer_Query ''bot'' [''e2e4'', ''e7e5''] ''white'' 5]\<rparr>)"
  by (simp add: ex_defs make_opening_explorer_move_def too_deep_def has_time_def log_call_def
      get_opening_explorer_top_move_def max_by_def with_wins_def is_repetition_after_def Let_def)

lemma cloud_example:
  "make_cloud_move weary_config opening_chess online_world endgame_game
     = Inr (Some (''g1f1'', 35, 30),
         endgame_game\<lparr>calls := [Cloud_Query [''e2e4'', ''e7e5''] 5]\<rparr>)"
  by (simp add: ex_defs make_cloud_move_def too_deep_def has_time_def log_call_def
      first_of_def is_repetition_after_def Let_def)

lemma chessdb_example:
  "make_chessdb_move weary_config opening_chess online_world endgame_game
     = Inr (Some ''g1f1'',
         endgame_game\<lparr>calls := [ChessDB_Query [''e2e4'', ''e7e5''] ''querybest'' 5]\<rparr>)"
  by (simp add: ex_defs make_chessdb_move_def too_deep_def has_time_def log_call_def
      first_of_def is_repetition_after_def Let_def)

lemma king_move_repeats:
  "is_repetition repeating_opening (board endgame_game @ [''g1f1'']) 2"
  "is_repetition repeating_chess (board endgame_game @ [''g1f1'']) 2"
  by (simp_all add: ex_defs)

text \<open>
  Claim C4, amended. The opening explorer, the cloud and the community database never
  return a move after which the position is a two-fold repetition: when the candidate,
  the move the source would return without the guard, repeats, the source counts a miss
  and returns no move, and the decision cycle goes on with the next source instead of
  failing. The book never returns such a move either: a book reader whose selected entry
  repeats is passed over for the next reader, and when no reader is left the book counts
  a miss and returns no move, whereupon the cycle goes on with the opening explorer. The
  Gaviota, Syzygy and online tablebase sources do not consult the repetition guard: what
  they return does not depend on it.
\<close>

theorem C4_counted_sources_reject_repetitions:
  "(make_book_move cfg ch env s = Inr (Some (m1, w, l), s1) \<longrightarrow>
      \<not> is_repetition ch (board s @ [m1]) 2) \<and>
   (make_opening_explorer_move cfg ch env s = Inr (Some (m2, p, wn, dr, ls), s2) \<longrightarrow>
      \<not> is_repetition ch (board s @ [m2]) 2) \<and>
   (make_cloud_move cfg ch env s = Inr (Some (m3, cp, dp), s3) \<longrightarrow>
      \<not> is_repetition ch (board s @ [m3]) 2) \<and>
   (make_chessdb_move cfg ch env s = Inr (Some m4, s4) \<longrightarrow>
      \<not> is_repetition ch (board s @ [m4]) 2) \<and>
   (make_book_move cfg ch env s = Inr (None, t1) \<longrightarrow>
      select_book cfg ch env s = select_explorer cfg ch env t1) \<and>
   (make_opening_explorer_move cfg ch env s = Inr (None, t2) \<longrightarrow>
      select_explorer cfg ch env s = select_cloud cfg ch env t2) \<and>
   (make_cloud_move cfg ch env s = Inr (None, t3) \<longrightarrow>
      select_cloud cfg ch env s = select_chessdb cfg ch env t3) \<and>
   (make_chessdb_move cfg ch env s = Inr (None, t4) \<longrightarrow>
      select_chessdb cfg ch env s = select_gaviota cfg ch env t4) \<and>
   (make_opening_explorer_move cfg (ch\<lparr>is_repetition := (\<lambda>b n. False)\<rparr>) env s
      = Inr (Some (c2, p, wn, dr, ls), u2) \<and>
    is_repetition ch (board s @ [c2]) 2 \<longrightarrow>
      make_opening_explorer_move cfg ch env s
        = Inr (None, u2\<lparr>out_of_opening_explorer_counter := 1\<rparr>) \<and>
      select_explorer cfg ch env s
        = select_cloud cfg ch env (u2\<lparr>out_of_opening_explorer_counter := 1\<rparr>)) \<and>
   (make_cloud_move cfg (ch\<lparr>is_repetition := (\<lambda>b n. False)\<rparr>) env s
      = Inr (Some (c3, cp, dp), u3) \<and>
    is_repetition ch (board s @ [c3]) 2 \<longrightarrow>
      make_cloud_move cfg ch env s = Inr (None, u3\<lparr>out_of_cloud_counter := 1\<rparr>) \<and>
      select_cloud cfg ch env s
        = select_chessdb cfg ch env (u3\<lparr>out_of_cloud_counter := 1\<rparr>)) \<and>
   (make_chessdb_move cfg (ch\<lparr>is_repetition := (\<lambda>b n. False)\<rparr>) env s = Inr (Some c4, u4) \<and>
    is_repetition ch (board s @ [c4]) 2 \<longrightarrow>
      make_chessdb_move cfg ch env s = Inr (None, u4\<lparr>out_of_chessdb_counter := 1\<rparr>) \<and>
      select_chessdb cfg ch env s
        = select_gaviota cfg ch env (u4\<lparr>out_of_chessdb_counter := 1\<rparr>)) \<and>
   (reader (board s) \<noteq> [] \<and>
    select_entry cfg env (reader (board s)) (log_call (Book_Lookup i (board s)) s)
      = Inr (en, u1) \<and>
    is_repetition ch (board s @ [entry_move en]) 2 \<longrightarrow>
      book_loop cfg ch env i (reader # rest) s = book_loop cfg ch env (Suc i) rest u1) \<and>
   book_loop cfg ch env i [] s
     = Inr (None, s\<lparr>out_of_book_counter := out_of_book_counter s + 1\<rparr>) \<and>
   (ob_enabled (opening_books cfg) \<and> out_of_book_counter s < 10 \<and>
    \<not> too_deep ch s (ob_max_depth (opening_books cfg)) \<and>
    book_readers env = [reader] \<and> reader (board s) \<noteq> [] \<and>
    select_entry cfg env (reader (board s)) (log_call (Book_Lookup 0 (board s)) s)
      = Inr (en, u1) \<and>
    is_repetition ch (board s @ [entry_move en]) 2 \<longrightarrow>
      make_book_move cfg ch env s
        = Inr (None, u1\<lparr>out_of_book_counter := out_of_book_counter u1 + 1\<rparr>) \<and>
      select_book cfg ch env s
        = select_explorer cfg ch env (u1\<lparr>out_of_book_counter := out_of_book_counter u1 + 1\<rparr>)) \<and>
   make_gaviota_move cfg (ch\<lparr>is_repetition := f\<rparr>) env s = make_gaviota_move cfg ch env s \<and>
   make_syzygy_move cfg (ch\<lparr>is_repetition := f\<rparr>) env s = make_syzygy_move cfg ch env s \<and>
   make_egtb_move cfg (ch\<lparr>is_repetition := f\<rparr>) env s = make_egtb_move cfg ch env s"
proof (intro conjI impI)
  assume "make_book_move cfg ch env s = Inr (Some (m1, w, l), s1)"
  then show "\<not> is_repetition ch (board s @ [m1]) 2" by (rule make_book_move_no_repetition)
next
  assume "make_opening_explorer_move cfg ch env s = Inr (Some (m2, p, wn, dr, ls), s2)"
  from make_opening_explorer_move_frame [OF this]
  show "\<not> is_repetition ch (board s @ [m2]) 2" by simp
next
  assume "make_cloud_move cfg ch env s = Inr (Some (m3, cp, dp), s3)"
  from make_cloud_move_frame [OF this]
  show "\<not> is_repetition ch (board s @ [m3]) 2" by simp
next
  assume "make_chessdb_move cfg ch env s = Inr (Some m4, s4)"
  from make_chessdb_move_frame [OF this]
  show "\<not> is_repetition ch (board s @ [m4]) 2" by simp
next
  assume "make_book_move cfg ch env s = Inr (None, t1)"
  then show "select_book cfg ch env s = select_explorer cfg ch env t1"
    by (simp add: select_book_def)
next
  assume "make_opening_explorer_move cfg ch env s = Inr (None, t2)"
  then show "select_explorer cfg ch env s = select_cloud cfg ch env t2"
    by (simp add: select_explorer_def)
next
  assume "make_cloud_move cfg ch env s = Inr (None, t3)"
  then show "select_cloud cfg ch env s = select_chessdb cfg ch env t3"
    by (simp add: select_cloud_def)
next
  assume "make_chessdb_move cfg ch env s = Inr (None, t4)"
  then show "select_chessdb cfg ch env s = select_gaviota cfg ch env t4"
    by (simp add: select_chessdb_def)
next
  assume a: "make_opening_explorer_move cfg (ch\<lparr>is_repetition := (\<lambda>b n. False)\<rparr>) env s
      = Inr (Some (c2, p, wn, dr, ls), u2) \<and> is_repetition ch (board s @ [c2]) 2"
  then show r: "make_opening_explorer_move cfg ch env s
      = Inr (None, u2\<lparr>out_of_opening_explorer_counter := 1\<rparr>)"
    using make_opening_explorer_move_guard by blast
  then show "select_explorer cfg ch env s
      = select_cloud cfg ch env (u2\<lparr>out_of_opening_explorer_counter := 1\<rparr>)"
    by (simp add: select_explorer_def)
next
  assume a: "make_cloud_move cfg (ch\<lparr>is_repetition := (\<lambda>b n. False)\<rparr>) env s
      = Inr (Some (c3, cp, dp), u3) \<and> is_repetition ch (board s @ [c3]) 2"
  then show r: "make_cloud_move cfg ch env s = Inr (None, u3\<lparr>out_of_cloud_counter := 1\<rparr>)"
    using make_cloud_move_guard by blast
  then show "select_cloud cfg ch env s
      = select_chessdb cfg ch env (u3\<lparr>out_of_cloud_counter := 1\<rparr>)"
    by (simp add: select_cloud_def)
next
  assume a: "make_chessdb_move cfg (ch\<lparr>is_repetition := (\<lambda>b n. False)\<rparr>) env s
      = Inr (Some c4, u4) \<and> is_repetition ch (board s @ [c4]) 2"
  then show r: "make_chessdb_move cfg ch env s = Inr (None, u4\<lparr>out_of_chessdb_counter := 1\<rparr>)"
    using make_chessdb_move_guard by blast
  then show "select_chessdb cfg ch env s
      = select_gaviota cfg ch env (u4\<lparr>out_of_chessdb_counter := 1\<rparr>)"
    by (simp add: select_chessdb_def)
next
  assume a: "reader (board s) \<noteq> [] \<and>
    select_entry cfg env (reader (board s)) (log_call (Book_Lookup i (board s)) s)
      = Inr (en, u1) \<and>
    is_repetition ch (board s @ [entry_move en]) 2"
  then have a1: "reader (board s) \<noteq> []"
    and a2: "select_entry cfg env (reader (board s)) (log_call (Book_Lookup i (board s)) s)
      = Inr (en, u1)"
    and a3: "is_repetition ch (board s @ [entry_move en]) 2"
    by blast+
  show "book_loop cfg ch env i (reader # rest) s = book_loop cfg ch env (Suc i) rest u1"
    using a1 a2 a3 by (rule book_loop_passes_on)
next
  show "book_loop cfg ch env i [] s
     = Inr (None, s\<lparr>out_of_book_counter := out_of_book_counter s + 1\<rparr>)"
    by simp
next
  assume a: "ob_enabled (opening_books cfg) \<and> out_of_book_counter s < 10 \<and>
    \<not> too_deep ch s (ob_max_depth (opening_books cfg)) \<and>
    book_readers env = [reader] \<and> reader (board s) \<noteq> [] \<and>
    select_entry cfg env (reader (board s)) (log_call (Book_Lookup 0 (board s)) s)
      = Inr (en, u1) \<and>
    is_repetition ch (board s @ [entry_move en]) 2"
  then have b: "ob_enabled (opening_books cfg)" "out_of_book_counter s < 10"
    "\<not> too_deep ch s (ob_max_depth (opening_books cfg))"
    "book_readers env = [reader]" "reader (board s) \<noteq> []"
    "select_entry cfg env (reader (board s)) (log_call (Book_Lookup 0 (board s)) s)
      = Inr (en, u1)"
    "is_repetition ch (board s @ [entry_move en]) 2"
    by blast+
  show r: "make_book_move cfg ch env s
      = Inr (None, u1\<lparr>out_of_book_counter := out_of_book_counter u1 + 1\<rparr>)"
    using b by (rule single_book_rejects)
  then show "select_book cfg ch env s
      = select_explorer cfg ch env (u1\<lparr>out_of_book_counter := out_of_book_counter u1 + 1\<rparr>)"
    by (simp add: select_book_def)
next
  show "make_gaviota_move cfg (ch\<lparr>is_repetition := f\<rparr>) env s = make_gaviota_move cfg ch env s"
    by (rule make_gaviota_move_unguarded)
  show "make_syzygy_move cfg (ch\<lparr>is_repetition := f\<rparr>) env s = make_syzygy_move cfg ch env s"
    by (rule make_syzygy_move_unguarded)
  show "make_egtb_move cfg (ch\<lparr>is_repetition := f\<rparr>) env s = make_egtb_move cfg ch env s"
    by (rule make_egtb_move_unguarded)
qed

theorem C4_counted_sources_reject_repetitions_witness:
  "\<not> is_repetition opening_chess (board endgame_game @ [''g1f1'']) 2 \<and>
   \<not> is_repetition repeating_opening (board endgame_game @ [''h6h7'']) 2 \<and>
   make_opening_explorer_move weary_config repeating_opening online_world endgame_game
     = Inr (None, endgame_game\<lparr>out_of_opening_explorer_counter := 1,
         calls := [Explorer_Query ''bot'' [''e2e4'', ''e7e5''] ''white'' 5]\<rparr>) \<and>
   make_cloud_move weary_config repeating_opening online_world endgame_game
     = Inr (None, endgame_game\<lparr>out_of_cloud_counter := 1,
         calls := [Cloud_Query [''e2e4'', ''e7e5''] 5]\<rparr>) \<and>
   make_chessdb_move weary_config repeating_opening online_world endgame_game
     = Inr (None, endgame_game\<lparr>out_of_chessdb_counter := 1,
         calls := [ChessDB_Query [''e2e4'', ''e7e5''] ''querybest'' 5]\<rparr>) \<and>
   select_explorer weary_config repeating_opening online_world endgame_game
     = select_cloud weary_config repeating_opening online_world
         (endgame_game\<lparr>out_of_opening_explorer_counter := 1,
            calls := [Explorer_Query ''bot'' [''e2e4'', ''e7e5''] ''white'' 5]\<rparr>) \<and>
   make_book_move weary_config repeating_opening (online_world\<lparr>book_readers := [first_book]\<rparr>)
       endgame_game
     = Inr (None, endgame_game\<lparr>out_of_book_counter := 1,
         calls := [Book_Lookup 0 [''e2e4'', ''e7e5'']]\<rparr>) \<and>
   make_book_move weary_config repeating_opening online_world endgame_game
     = Inr (Some (''h6h7'', 100, 0),
         endgame_game\<lparr>calls := [Book_Lookup 0 [''e2e4'', ''e7e5''],
                                 Book_Lookup 1 [''e2e4'', ''e7e5'']]\<rparr>) \<and>
   select_chessdb weary_config endgame_chess endgame_world weary_game
     = select_gaviota weary_config endgame_chess endgame_world weary_game \<and>
   make_syzygy_move syzygy_config repeating_chess blessed_world endgame_game
     = Inr (Some (''g1f1'', ''blessed loss'', - 120, True, False), endgame_game\<lparr>draws := 1\<rparr>) \<and>
   make_egtb_move egtb_config repeating_chess egtb_world endgame_game
     = Inr (Some (''g1f1'', ''draw'', 0, None, True, False),
         endgame_game\<lparr>calls := [EGTB_Query [''e2e4'', ''e7e5''] ''standard'' 3]\<rparr>)"
proof -
  note plain = C4_counted_sources_reject_repetitions [where cfg = weary_config
      and ch = opening_chess and env = online_world and s = endgame_game]
  have w1: "\<not> is_repetition opening_chess (board endgame_game @ [''g1f1'']) 2"
    using plain [THEN conjunct1, rule_format, OF book_example] .
  note guarded = C4_counted_sources_reject_repetitions [where cfg = weary_config
      and ch = repeating_opening and env = online_world and s = endgame_game]
  have w2: "\<not> is_repetition repeating_opening (board endgame_game @ [''h6h7'']) 2"
    using guarded [THEN conjunct1, rule_format, OF book_second_reader_example] .
  have he: "make_opening_explorer_move weary_config
        (repeating_opening\<lparr>is_repetition := (\<lambda>b n. False)\<rparr>) online_world endgame_game
      = Inr (Some (''g1f1'', 2400, 6, 2, 1),
          endgame_game\<lparr>calls := [Explorer_Query ''bot'' [''e2e4'', ''e7e5''] ''white'' 5]\<rparr>) \<and>
      is_repetition repeating_opening (board endgame_game @ [''g1f1'']) 2"
    using explorer_example king_move_repeats(1) by (simp add: unguarded_opening)
  note e = guarded [THEN conjunct2, THEN conjunct2, THEN conjunct2, THEN conjunct2,
      THEN conjunct2, THEN conjunct2, THEN conjunct2, THEN conjunct2, THEN conjunct1,
      rule_format, OF he]
  have hc: "make_cloud_move weary_config
        (repeating_opening\<lparr>is_repetition := (\<lambda>b n. False)\<rparr>) online_world endgame_game
      = Inr (Some (''g1f1'', 35, 30),
          endgame_game\<lparr>calls := [Cloud_Query [''e2e4'', ''e7e5''] 5]\<rparr>) \<and>
      is_repetition repeating_opening (board endgame_game @ [''g1f1'']) 2"
    using cloud_example king_move_repeats(1) by (simp add: unguarded_opening)
  note c = guarded [THEN conjunct2, THEN conjunct2, THEN conjunct2, THEN conjunct2,
      THEN conjunct2, THEN conjunct2, THEN conjunct2, THEN conjunct2, THEN conjunct2,
      THEN conjunct1, rule_format, OF hc]
  have hd: "make_chessdb_move weary_config
        (repeating_opening\<lparr>is_repetition := (\<lambda>b n. False)\<rparr>) online_world endgame_game
      = Inr (Some ''g1f1'',
          endgame_game\<lparr>calls := [ChessDB_Query [''e2e4'', ''e7e5''] ''querybest'' 5]\<rparr>) \<and>
      is_repetition repeating_opening (board endgame_game @ [''g1f1'']) 2"
    using chessdb_example king_move_repeats(1) by (simp add: unguarded_opening)
  note d = guarded [THEN conjunct2, THEN conjunct2, THEN conjunct2, THEN conjunct2,
      THEN conjunct2, THEN conjunct2, THEN conjunct2, THEN conjunct2, THEN conjunct2,
      THEN conjunct2, THEN conjunct1, rule_format, OF hd]
  have hb: "ob_enabled (opening_books weary_config) \<and> out_of_book_counter endgame_game < 10 \<and>
    \<not> too_deep repeating_opening endgame_game (ob_max_depth (opening_books weary_config)) \<and>
    book_readers (online_world\<lparr>book_readers := [first_book]\<rparr>) = [first_book] \<and>
    first_book (board endgame_game) \<noteq> [] \<and>
    select_entry weary_config (online_world\<lparr>book_readers := [first_book]\<rparr>)
        (first_book (board endgame_game))
        (log_call (Book_Lookup 0 (board endgame_game)) endgame_game)
      = Inr (\<lparr>entry_move = ''g1f1'', entry_weight = 10, entry_learn = 0\<rparr>,
          endgame_game\<lparr>calls := [Book_Lookup 0 [''e2e4'', ''e7e5'']]\<rparr>) \<and>
    is_repetition repeating_opening
      (board endgame_game @ [entry_move \<lparr>entry_move = ''g1f1'', entry_weight = 10, entry_learn = 0\<rparr>]) 2"
    using first_book_selection king_move_repeats(1)
    by (simp add: too_deep_def weary_config_def quiet_config_def endgame_game_def first_book_def)
  note b = C4_counted_sources_reject_repetitions [where cfg = weary_config
      and ch = repeating_opening and env = "online_world\<lparr>book_readers := [first_book]\<rparr>"
      and s = endgame_game and reader = first_book,
      THEN conjunct2, THEN conjunct2, THEN conjunct2, THEN conjunct2,
      THEN conjunct2, THEN conjunct2, THEN conjunct2, THEN conjunct2, THEN conjunct2,
      THEN conjunct2, THEN conjunct2, THEN conjunct2, THEN conjunct2, THEN conjunct1,
      rule_format, OF hb]
  note none = C4_counted_sources_reject_repetitions [where cfg = weary_config
      and ch = endgame_chess and env = endgame_world and s = weary_game]
  have f: "select_chessdb weary_config endgame_chess endgame_world weary_game
     = select_gaviota weary_config endgame_chess endgame_world weary_game"
    using none [THEN conjunct2, THEN conjunct2, THEN conjunct2, THEN conjunct2, THEN conjunct2,
        THEN conjunct2, THEN conjunct2, THEN conjunct1, rule_format, OF weary_sources(4)] .
  have z: "make_syzygy_move syzygy_config repeating_chess blessed_world endgame_game
     = Inr (Some (''g1f1'', ''blessed loss'', - 120, True, False), endgame_game\<lparr>draws := 1\<rparr>)"
    using C4_counted_sources_reject_repetitions [where ch = endgame_chess
      and f = "\<lambda>b n. b \<noteq> [] \<and> last b = ''g1f1'' \<and> n \<le> 2" and s = endgame_game
      and cfg = syzygy_config and env = blessed_world,
      THEN conjunct2, THEN conjunct2, THEN conjunct2, THEN conjunct2,
      THEN conjunct2, THEN conjunct2, THEN conjunct2, THEN conjunct2, THEN conjunct2,
      THEN conjunct2, THEN conjunct2, THEN conjunct2, THEN conjunct2, THEN conjunct2,
      THEN conjunct2, THEN conjunct1]
      blessed_move_example
    by (simp add: repeating_chess_def)
  have g: "make_egtb_move egtb_config repeating_chess egtb_world endgame_game
     = Inr (Some (''g1f1'', ''draw'', 0, None, True, False),
         endgame_game\<lparr>calls := [EGTB_Query [''e2e4'', ''e7e5''] ''standard'' 3]\<rparr>)"
    using C4_counted_sources_reject_repetitions [where ch = endgame_chess
      and f = "\<lambda>b n. b \<noteq> [] \<and> last b = ''g1f1'' \<and> n \<le> 2" and s = endgame_game
      and cfg = egtb_config and env = egtb_world,
      THEN conjunct2, THEN conjunct2, THEN conjunct2, THEN conjunct2,
      THEN conjunct2, THEN conjunct2, THEN conjunct2, THEN conjunct2, THEN conjunct2,
      THEN conjunct2, THEN conjunct2, THEN conjunct2, THEN conjunct2, THEN conjunct2,
      THEN conjunct2, THEN conjunct2]
      egtb_move_example
    by (simp add: repeating_chess_def)
  have e1: "make_opening_explorer_move weary_config repeating_opening online_world endgame_game
     = Inr (None, endgame_game\<lparr>out_of_opening_explorer_counter := 1,
         calls := [Explorer_Query ''bot'' [''e2e4'', ''e7e5''] ''white'' 5]\<rparr>)"
    using e [THEN conjunct1] by (simp add: endgame_game_def)
  have e2: "select_explorer weary_config repeating_opening online_world endgame_game
     = select_cloud weary_config repeating_opening online_world
         (endgame_game\<lparr>out_of_opening_explorer_counter := 1,
            calls := [Explorer_Query ''bot'' [''e2e4'', ''e7e5''] ''white'' 5]\<rparr>)"
    using e [THEN conjunct2] by (simp add: endgame_game_def)
  have c1: "make_cloud_move weary_config repeating_opening online_world endgame_game
     = Inr (None, endgame_game\<lparr>out_of_cloud_counter := 1,
         calls := [Cloud_Query [''e2e4'', ''e7e5''] 5]\<rparr>)"
    using c [THEN conjunct1] by (simp add: endgame_game_def)
  have d1: "make_chessdb_move weary_config repeating_opening online_world endgame_game
     = Inr (None, endgame_game\<lparr>out_of_chessdb_counter := 1,
         calls := [ChessDB_Query [''e2e4'', ''e7e5''] ''querybest'' 5]\<rparr>)"
    using d [THEN conjunct1] by (simp add: endgame_game_def)
  have b1: "make_book_move weary_config repeating_opening
       (online_world\<lparr>book_readers := [first_book]\<rparr>) endgame_game
     = Inr (None, endgame_game\<lparr>out_of_book_counter := 1,
         calls := [Book_Lookup 0 [''e2e4'', ''e7e5'']]\<rparr>)"
    using b [THEN conjunct1] by (simp add: endgame_game_def)
  from w1 w2 e1 c1 d1 e2 b1 book_second_reader_example f z g show ?thesis
    by (intro conjI)
qed

section \<open>Pushing the move and pondering\<close>









end
